theory Spec2Isabelle
  imports Complex_Main "HOL-Library.AList"
begin

section \<open>The spiking network of neat/iznn\<close>

text \<open>
  The module \<^verbatim>\<open>neat/iznn/__init__.py\<close> holds the node gene of the Izhikevich
  model with its genomic distance, the neuron with its integrator, and the network
  that steps all neurons synchronously and is built from a genome.

  Conventions of the embedding.
  \<^item> A Python \<^verbatim>\<open>float\<close> is a \<^typ>\<open>real\<close>: every operation is exact and every
    value finite. Rounding, infinities and NaN are outside the model. The one
    exception that float arithmetic raises in this module, the
    \<^verbatim>\<open>OverflowError\<close> of \<^verbatim>\<open>v ** 2\<close>, is kept: the power fails when the
    square is larger than the greatest finite double.
  \<^item> A node key is an \<^typ>\<open>int\<close>.
  \<^item> A \<^verbatim>\<open>dict\<close> that the code iterates is an association list in insertion
    order; a \<^verbatim>\<open>dict\<close> that is only looked up is a map.
  \<^item> A method that mutates its object returns the object updated; a method that
    can raise returns the exception as a value beside the state it leaves behind.
\<close>

subsection \<open>Exceptions\<close>

datatype error = OverflowError | AssertionError | KeyError int

subsection \<open>Genes, genome and configuration\<close>

text \<open>\<^verbatim>\<open>IZNodeGene\<close>: the five float attributes of \<^verbatim>\<open>_gene_attributes\<close>.\<close>

record IZNodeGene =
  bias :: real
  a :: real
  b :: real
  c :: real
  d :: real

text \<open>The fields of \<^verbatim>\<open>DefaultConnectionGene\<close> that \<^verbatim>\<open>IZNN.create\<close> reads.\<close>

record DefaultConnectionGene =
  key :: "int \<times> int"
  weight :: real
  enabled :: bool

record DefaultGenomeConfig =
  input_keys :: "int list"
  output_keys :: "int list"
  compatibility_weight_coefficient :: real

record Config =
  genome_config :: DefaultGenomeConfig

text \<open>
  \<^verbatim>\<open>genome.nodes\<close> is only indexed, \<^verbatim>\<open>genome.connections\<close> is iterated with
  \<^verbatim>\<open>itervalues\<close>.
\<close>

record IZGenome =
  nodes :: "int \<rightharpoonup> IZNodeGene"
  connections :: "((int \<times> int) \<times> DefaultConnectionGene) list"

text \<open>\<^verbatim>\<open>IZNodeGene.distance(self, other, config)\<close>\<close>

definition distance :: "IZNodeGene \<Rightarrow> IZNodeGene \<Rightarrow> DefaultGenomeConfig \<Rightarrow> real" where
  "distance self other config =
     (let s = (\<bar>IZNodeGene.a self - IZNodeGene.a other\<bar> + \<bar>IZNodeGene.b self - IZNodeGene.b other\<bar> +
               \<bar>IZNodeGene.c self - IZNodeGene.c other\<bar> + \<bar>IZNodeGene.d self - IZNodeGene.d other\<bar>)
      in s * compatibility_weight_coefficient config)"

subsection \<open>The neuron\<close>

record IZNeuron =
  a :: real
  b :: real
  c :: real
  d :: real
  bias :: real
  inputs :: "(int \<times> real) list"
  v :: real
  u :: real
  fired :: real
  current :: real

text \<open>\<^verbatim>\<open>IZNeuron.__init__(self, bias, a, b, c, d, inputs)\<close>\<close>

definition IZNeuron_init ::
  "real \<Rightarrow> real \<Rightarrow> real \<Rightarrow> real \<Rightarrow> real \<Rightarrow> (int \<times> real) list \<Rightarrow> IZNeuron" where
  "IZNeuron_init bias0 a0 b0 c0 d0 inputs0 =
     \<lparr>a = a0, b = b0, c = c0, d = d0, bias = bias0, inputs = inputs0,
      v = c0, u = b0 * c0, fired = 0, current = bias0\<rparr>"

text \<open>The greatest finite double, about \<open>1.8 * 10\<^sup>3\<^sup>0\<^sup>8\<close>.\<close>

definition float_max :: real where
  "float_max = (2 ^ 53 - 1) * 2 ^ 971"

text \<open>
  \<^verbatim>\<open>x ** 2\<close> on floats: \<open>None\<close> is the \<^verbatim>\<open>OverflowError\<close> that Python raises
  when the result is out of range. The products and sums of the integrator raise
  nothing.
\<close>

definition float_pow2 :: "real \<Rightarrow> real option" where
  "float_pow2 x = (if x * x > float_max then None else Some (x * x))"

text \<open>
  One of the two identical statements
  \<^verbatim>\<open>self.v += 0.5 * dt_msec * (0.04 * self.v ** 2 + 5 * self.v + 140 - self.u + self.current)\<close>;
  when the power raises, the assignment does not happen.
\<close>

definition half_step :: "real \<Rightarrow> IZNeuron \<Rightarrow> IZNeuron option" where
  "half_step dt_msec self =
     (case float_pow2 (v self) of
        None \<Rightarrow> None
      | Some sq \<Rightarrow>
          Some (self\<lparr>v := v self + 0.5 * dt_msec * (0.04 * sq + 5 * v self + 140 - u self + current self)\<rparr>))"

text \<open>
  The body of the \<^verbatim>\<open>try\<close>: the flag tells whether \<^verbatim>\<open>OverflowError\<close> was raised,
  the neuron is the object as the statements executed so far have left it.
\<close>

definition try_body :: "real \<Rightarrow> IZNeuron \<Rightarrow> bool \<times> IZNeuron" where
  "try_body dt_msec self =
     (case half_step dt_msec self of
        None \<Rightarrow> (True, self)
      | Some s1 \<Rightarrow>
          (case half_step dt_msec s1 of
             None \<Rightarrow> (True, s1)
           | Some s2 \<Rightarrow>
               (False, s2\<lparr>u := u s2 + dt_msec * IZNeuron.a s2 * (IZNeuron.b s2 * v s2 - u s2)\<rparr>)))"

text \<open>The \<^verbatim>\<open>except OverflowError\<close> handler.\<close>

definition on_overflow :: "IZNeuron \<Rightarrow> IZNeuron" where
  "on_overflow self = (let s1 = self\<lparr>v := IZNeuron.c self\<rparr> in s1\<lparr>u := IZNeuron.b s1 * v s1\<rparr>)"

text \<open>The statements after the \<^verbatim>\<open>try\<close>: clear \<^verbatim>\<open>fired\<close>, then spike and reset.\<close>

definition spike_check :: "IZNeuron \<Rightarrow> IZNeuron" where
  "spike_check self =
     (let s1 = self\<lparr>fired := 0\<rparr>
      in if v s1 > 30 then s1\<lparr>fired := 1, v := IZNeuron.c s1, u := u s1 + IZNeuron.d s1\<rparr> else s1)"

text \<open>\<^verbatim>\<open>IZNeuron.advance(self, dt_msec)\<close>\<close>

definition IZNeuron_advance :: "real \<Rightarrow> IZNeuron \<Rightarrow> IZNeuron" where
  "IZNeuron_advance dt_msec self =
     (case try_body dt_msec self of
        (True, s) \<Rightarrow> spike_check (on_overflow s)
      | (False, s) \<Rightarrow> spike_check s)"

text \<open>\<^verbatim>\<open>IZNeuron.reset(self)\<close>\<close>

definition IZNeuron_reset :: "IZNeuron \<Rightarrow> IZNeuron" where
  "IZNeuron_reset self =
     (let s1 = self\<lparr>v := IZNeuron.c self\<rparr>;
          s2 = s1\<lparr>u := IZNeuron.b s1 * v s1\<rparr>;
          s3 = s2\<lparr>fired := 0\<rparr>
      in s3\<lparr>current := IZNeuron.bias s3\<rparr>)"

subsection \<open>The network\<close>

text \<open>
  \<^verbatim>\<open>IZNN\<close>. The dictionary \<^verbatim>\<open>neurons\<close> is iterated, so it is an association list
  in insertion order, one entry per key; each entry holds its neuron by value, as
  \<^verbatim>\<open>create\<close> builds it (no two keys share one neuron object).
\<close>

record IZNN =
  neurons :: "(int \<times> IZNeuron) list"
  inputs :: "int list"
  outputs :: "int list"
  input_values :: "int \<rightharpoonup> real"

text \<open>\<^verbatim>\<open>IZNN.__init__(self, neurons, inputs, outputs)\<close>\<close>

definition IZNN_init :: "(int \<times> IZNeuron) list \<Rightarrow> int list \<Rightarrow> int list \<Rightarrow> IZNN" where
  "IZNN_init neurons0 inputs0 outputs0 =
     \<lparr>neurons = neurons0, inputs = inputs0, outputs = outputs0, input_values = Map.empty\<rparr>"

text \<open>The loop \<^verbatim>\<open>for i, v in zip(self.inputs, inputs): self.input_values[i] = v\<close>.\<close>

fun assign_inputs :: "(int \<times> real) list \<Rightarrow> (int \<rightharpoonup> real) \<Rightarrow> (int \<rightharpoonup> real)" where
  "assign_inputs [] m = m"
| "assign_inputs ((i, x) # rest) m = assign_inputs rest (m(i \<mapsto> x))"

text \<open>
  \<^verbatim>\<open>IZNN.set_inputs(self, inputs)\<close>: the \<^verbatim>\<open>assert\<close> raises before anything is
  assigned.
\<close>

definition IZNN_set_inputs :: "real list \<Rightarrow> IZNN \<Rightarrow> error option \<times> IZNN" where
  "IZNN_set_inputs vals self =
     (if length vals \<noteq> length (IZNN.inputs self) then (Some AssertionError, self)
      else (None, self\<lparr>input_values := assign_inputs (zip (IZNN.inputs self) vals) (input_values self)\<rparr>))"

text \<open>\<^verbatim>\<open>IZNN.reset(self)\<close>\<close>

definition IZNN_reset :: "IZNN \<Rightarrow> IZNN" where
  "IZNN_reset self = self\<lparr>neurons := map (\<lambda>(k, n). (k, IZNeuron_reset n)) (neurons self)\<rparr>"

text \<open>\<^verbatim>\<open>IZNN.get_time_step_msec(self)\<close>\<close>

definition get_time_step_msec :: "IZNN \<Rightarrow> real" where
  "get_time_step_msec self = 0.05"

text \<open>
  The inner loop of \<^verbatim>\<open>advance\<close>, \<^verbatim>\<open>for i, w in n.inputs\<close>, for the neuron \<open>n\<close>
  stored under \<open>k\<close>. The dictionary the loop looks into is \<open>before @ (k, n) # after\<close>,
  with \<open>n\<close> as the loop has updated it so far. A source that is neither a neuron nor
  in \<^verbatim>\<open>input_values\<close> raises \<^verbatim>\<open>KeyError\<close>, and \<open>n\<close> keeps what was added before.
\<close>

fun add_inputs ::
  "(int \<times> IZNeuron) list \<Rightarrow> int \<Rightarrow> (int \<times> IZNeuron) list \<Rightarrow> (int \<rightharpoonup> real) \<Rightarrow>
   (int \<times> real) list \<Rightarrow> IZNeuron \<Rightarrow> error option \<times> IZNeuron" where
  "add_inputs before k after iv [] n = (None, n)"
| "add_inputs before k after iv ((i, w) # rest) n =
     (case map_of (before @ (k, n) # after) i of
        Some ineuron \<Rightarrow>
          add_inputs before k after iv rest (n\<lparr>current := current n + fired ineuron * w\<rparr>)
      | None \<Rightarrow>
          (case iv i of
             Some ivalue \<Rightarrow> add_inputs before k after iv rest (n\<lparr>current := current n + ivalue * w\<rparr>)
           | None \<Rightarrow> (Some (KeyError i), n)))"

text \<open>
  The first loop of \<^verbatim>\<open>advance\<close> over \<^verbatim>\<open>itervalues(self.neurons)\<close>: the entries
  already visited, the entries still to visit. It stops at the first exception and
  returns the dictionary as it is then.
\<close>

fun compute_currents ::
  "(int \<times> IZNeuron) list \<Rightarrow> (int \<times> IZNeuron) list \<Rightarrow> (int \<rightharpoonup> real) \<Rightarrow>
   error option \<times> (int \<times> IZNeuron) list" where
  "compute_currents before [] iv = (None, before)"
| "compute_currents before ((k, n) # after) iv =
     (case add_inputs before k after iv (IZNeuron.inputs n) (n\<lparr>current := IZNeuron.bias n\<rparr>) of
        (Some e, n') \<Rightarrow> (Some e, before @ (k, n') # after)
      | (None, n') \<Rightarrow> compute_currents (before @ [(k, n')]) after iv)"

text \<open>\<^verbatim>\<open>[self.neurons[i].fired for i in self.outputs]\<close>\<close>

fun output_values :: "(int \<times> IZNeuron) list \<Rightarrow> int list \<Rightarrow> error + real list" where
  "output_values ns [] = Inr []"
| "output_values ns (i # rest) =
     (case map_of ns i of
        None \<Rightarrow> Inl (KeyError i)
      | Some n \<Rightarrow> (case output_values ns rest of Inl e \<Rightarrow> Inl e | Inr fs \<Rightarrow> Inr (fired n # fs)))"

text \<open>\<^verbatim>\<open>IZNN.advance(self, dt_msec)\<close>\<close>

definition IZNN_advance :: "real \<Rightarrow> IZNN \<Rightarrow> (error + real list) \<times> IZNN" where
  "IZNN_advance dt_msec self =
     (case compute_currents [] (neurons self) (input_values self) of
        (Some e, ns) \<Rightarrow> (Inl e, self\<lparr>neurons := ns\<rparr>)
      | (None, ns) \<Rightarrow>
          (let ns2 = map (\<lambda>(k, n). (k, IZNeuron_advance dt_msec n)) ns
           in (output_values ns2 (outputs self), self\<lparr>neurons := ns2\<rparr>)))"

subsection \<open>Building the network from a genome\<close>

text \<open>
  The first loop of \<^verbatim>\<open>create\<close>, over \<^verbatim>\<open>itervalues(genome.connections)\<close>, filling
  \<^verbatim>\<open>node_inputs\<close>.
\<close>

fun gather_inputs ::
  "int list \<Rightarrow> DefaultConnectionGene list \<Rightarrow> (int \<rightharpoonup> (int \<times> real) list) \<Rightarrow>
   (int \<rightharpoonup> (int \<times> real) list)" where
  "gather_inputs required [] node_inputs = node_inputs"
| "gather_inputs required (cg # rest) node_inputs =
     (if \<not> enabled cg then gather_inputs required rest node_inputs
      else
        (case key cg of
           (i, o') \<Rightarrow>
             if o' \<notin> set required \<and> i \<notin> set required then gather_inputs required rest node_inputs
             else
               (case node_inputs o' of
                  None \<Rightarrow> gather_inputs required rest (node_inputs(o' \<mapsto> [(i, weight cg)]))
                | Some l \<Rightarrow> gather_inputs required rest (node_inputs(o' \<mapsto> l @ [(i, weight cg)])))))"

text \<open>
  The second loop of \<^verbatim>\<open>create\<close>, \<^verbatim>\<open>for node_key in required\<close>;
  \<^verbatim>\<open>genome.nodes[node_key]\<close> raises \<^verbatim>\<open>KeyError\<close> for a key without a node gene.
\<close>

fun make_neurons ::
  "IZGenome \<Rightarrow> (int \<rightharpoonup> (int \<times> real) list) \<Rightarrow> int list \<Rightarrow> (int \<times> IZNeuron) list \<Rightarrow>
   error + (int \<times> IZNeuron) list" where
  "make_neurons genome node_inputs [] ns = Inr ns"
| "make_neurons genome node_inputs (node_key # rest) ns =
     (case nodes genome node_key of
        None \<Rightarrow> Inl (KeyError node_key)
      | Some ng \<Rightarrow>
          (let ins = (case node_inputs node_key of None \<Rightarrow> [] | Some l \<Rightarrow> l)
           in make_neurons genome node_inputs rest
                (AList.update node_key
                   (IZNeuron_init (IZNodeGene.bias ng) (IZNodeGene.a ng) (IZNodeGene.b ng)
                      (IZNodeGene.c ng) (IZNodeGene.d ng) ins) ns)))"

text \<open>
  \<^verbatim>\<open>IZNN.create(genome, config)\<close>. The function \<^verbatim>\<open>required_for_output\<close> of
  \<^verbatim>\<open>neat.graphs\<close> is the parameter \<open>rfo\<close>; the list it returns is the set
  \<^verbatim>\<open>required\<close> in the order the second loop iterates it.
\<close>

definition IZNN_create ::
  "(int list \<Rightarrow> int list \<Rightarrow> ((int \<times> int) \<times> DefaultConnectionGene) list \<Rightarrow> int list) \<Rightarrow>
   IZGenome \<Rightarrow> Config \<Rightarrow> error + IZNN" where
  "IZNN_create rfo genome config =
     (let gc = genome_config config;
          required = rfo (input_keys gc) (output_keys gc) (connections genome);
          node_inputs = gather_inputs required (map snd (connections genome)) Map.empty
      in case make_neurons genome node_inputs required [] of
           Inl e \<Rightarrow> Inl e
         | Inr ns \<Rightarrow> Inr (IZNN_init ns (input_keys gc) (output_keys gc)))"

text \<open>
  Modelled from the spec: \<^verbatim>\<open>required_for_output\<close> of \<^verbatim>\<open>neat.graphs\<close>, whose source
  is not part of the module. The spec's contract: the output keys plus every node key
  with a path to an output key through enabled connections, followed backward from the
  outputs; input keys are never added. One backward pass per connection reaches every
  such node.
\<close>

definition required_step :: "int list \<Rightarrow> DefaultConnectionGene list \<Rightarrow> int list \<Rightarrow> int list" where
  "required_step ins cgs req =
     req @ filter (\<lambda>i. i \<notin> set ins \<and> i \<notin> set req)
             (map (\<lambda>cg. fst (key cg)) (filter (\<lambda>cg. enabled cg \<and> snd (key cg) \<in> set req) cgs))"

fun required_passes :: "nat \<Rightarrow> int list \<Rightarrow> DefaultConnectionGene list \<Rightarrow> int list \<Rightarrow> int list" where
  "required_passes 0 ins cgs req = req"
| "required_passes (Suc m) ins cgs req = required_passes m ins cgs (required_step ins cgs req)"

definition required_for_output ::
  "int list \<Rightarrow> int list \<Rightarrow> ((int \<times> int) \<times> DefaultConnectionGene) list \<Rightarrow> int list" where
  "required_for_output ins outs conns =
     remdups (required_passes (length conns) ins (map snd conns) outs)"

subsection \<open>The behaviour the specification describes\<close>

text \<open>The right-hand side of the half-step of the specification.\<close>

definition euler_half :: "real \<Rightarrow> real \<Rightarrow> real \<Rightarrow> real \<Rightarrow> real" where
  "euler_half dt x y i = x + 0.5 * dt * (0.04 * x\<^sup>2 + 5 * x + 140 - y + i)"

text \<open>
  The value a source key stands for in phase 1: the \<^verbatim>\<open>fired\<close> of the neuron with
  that key, else the value supplied from outside, else nothing.
\<close>

definition source_value :: "(int \<times> IZNeuron) list \<Rightarrow> (int \<rightharpoonup> real) \<Rightarrow> int \<Rightarrow> real option" where
  "source_value ns iv i = (case map_of ns i of Some m \<Rightarrow> Some (fired m) | None \<Rightarrow> iv i)"

text \<open>
  The accumulator plus weight times source value along an input list, in the order of
  the list; at the first source without a value, the error naming it and the sum so
  far.
\<close>

fun weighted_sum :: "(int \<Rightarrow> real option) \<Rightarrow> (int \<times> real) list \<Rightarrow> real \<Rightarrow> error option \<times> real" where
  "weighted_sum src [] acc = (None, acc)"
| "weighted_sum src ((i, w) # rest) acc =
     (case src i of
        None \<Rightarrow> (Some (KeyError i), acc)
      | Some x \<Rightarrow> weighted_sum src rest (acc + w * x))"

text \<open>The current of phase 1 for one neuron: bias plus the weighted sources.\<close>

definition frozen_current :: "IZNN \<Rightarrow> IZNeuron \<Rightarrow> real" where
  "frozen_current net n =
     snd (weighted_sum (source_value (neurons net) (input_values net)) (IZNeuron.inputs n) (IZNeuron.bias n))"

text \<open>Every source of every neuron has a value.\<close>

definition sources_bound :: "IZNN \<Rightarrow> bool" where
  "sources_bound net =
     list_all (\<lambda>(k, n). list_all (\<lambda>(i, w). source_value (neurons net) (input_values net) i \<noteq> None)
                          (IZNeuron.inputs n)) (neurons net)"

text \<open>Phase 2 applied to the currents of phase 1.\<close>

definition stepped :: "real \<Rightarrow> IZNN \<Rightarrow> (int \<times> IZNeuron) list" where
  "stepped dt net =
     map (\<lambda>(k, n). (k, IZNeuron_advance dt (n\<lparr>current := frozen_current net n\<rparr>))) (neurons net)"

text \<open>A dictionary of neurons with the \<^verbatim>\<open>current\<close> fields blanked.\<close>

definition without_current :: "(int \<times> IZNeuron) list \<Rightarrow> (int \<times> IZNeuron) list" where
  "without_current ns = map (\<lambda>(k, n). (k, n\<lparr>current := 0\<rparr>)) ns"

text \<open>
  The input list the specification gives the neuron of node \<open>k\<close>: source and weight of
  the enabled connections with an endpoint in \<open>required\<close> that end in \<open>k\<close>, in the
  order of the connection collection.
\<close>

definition inputs_of :: "int list \<Rightarrow> DefaultConnectionGene list \<Rightarrow> int \<Rightarrow> (int \<times> real) list" where
  "inputs_of required cgs k =
     map (\<lambda>cg. (fst (key cg), weight cg))
       (filter (\<lambda>cg. enabled cg \<and> (fst (key cg) \<in> set required \<or> snd (key cg) \<in> set required)
                      \<and> snd (key cg) = k) cgs)"

text \<open>The neuron \<^verbatim>\<open>create\<close> makes from a node gene and an input list.\<close>

definition neuron_of :: "IZNodeGene \<Rightarrow> (int \<times> real) list \<Rightarrow> IZNeuron" where
  "neuron_of ng ins =
     IZNeuron_init (IZNodeGene.bias ng) (IZNodeGene.a ng) (IZNodeGene.b ng) (IZNodeGene.c ng)
       (IZNodeGene.d ng) ins"

subsection \<open>Example networks\<close>

text \<open>A fresh neuron with \<^verbatim>\<open>REGULAR_SPIKING_PARAMS\<close>.\<close>

definition regular_spiking :: "real \<Rightarrow> (int \<times> real) list \<Rightarrow> IZNeuron" where
  "regular_spiking bias0 ins = IZNeuron_init bias0 0.02 0.20 (-65) 8 ins"

text \<open>
  Two neurons that feed each other. Neuron 0 also listens to the input key \<open>-1\<close>;
  neuron 1 has fired in the step before. The outputs are declared in the order 1, 0.
\<close>

definition pair_net :: IZNN where
  "pair_net =
     \<lparr>neurons = [(0, regular_spiking 0 [(-1, 1), (1, 10000)]),
                 (1, (regular_spiking 0 [(0, 2)])\<lparr>fired := 1\<rparr>)],
      inputs = [-1], outputs = [1, 0], input_values = [-1 \<mapsto> 10]\<rparr>"

text \<open>The same network with the dictionary of neurons filled in the other order.\<close>

definition pair_net_swapped :: IZNN where
  "pair_net_swapped =
     \<lparr>neurons = [(1, (regular_spiking 0 [(0, 2)])\<lparr>fired := 1\<rparr>),
                 (0, regular_spiking 0 [(-1, 1), (1, 10000)])],
      inputs = [-1], outputs = [1, 0], input_values = [-1 \<mapsto> 10]\<rparr>"

text \<open>One neuron with two input keys, only the first of which has been given a value.\<close>

definition unbound_net :: IZNN where
  "unbound_net =
     \<lparr>neurons = [(0, regular_spiking 0 [(-1, 1), (-2, 1)])],
      inputs = [-1, -2], outputs = [0], input_values = [-1 \<mapsto> 5]\<rparr>"

text \<open>
  Three neurons of which the second has an input key without a value: the first is
  visited before the failure, the third, whose \<open>current\<close> is not its bias, after.
\<close>

definition unbound_chain :: IZNN where
  "unbound_chain =
     \<lparr>neurons = [(0, regular_spiking 0 [(-1, 1)]),
                 (1, regular_spiking 0 [(-1, 2), (-2, 1)]),
                 (2, (regular_spiking 3 [])\<lparr>current := 99\<rparr>)],
      inputs = [-1, -2], outputs = [2], input_values = [-1 \<mapsto> 5]\<rparr>"

text \<open>
  Scenario B of the specification: inputs \<open>-1\<close> and \<open>-2\<close>, output \<open>0\<close>, an
  enabled connection from \<open>-1\<close> to \<open>0\<close> and a disabled one from \<open>-2\<close> to \<open>0\<close>,
  both of weight 1.
\<close>

definition scenario_b_genome :: IZGenome where
  "scenario_b_genome =
     \<lparr>nodes = [0 \<mapsto> \<lparr>IZNodeGene.bias = 0, a = 0.02, b = 0.20, c = -65, d = 8\<rparr>],
      connections = [((-1, 0), \<lparr>key = (-1, 0), weight = 1, enabled = True\<rparr>),
                     ((-2, 0), \<lparr>key = (-2, 0), weight = 1, enabled = False\<rparr>)]\<rparr>"

definition scenario_b_config :: Config where
  "scenario_b_config =
     \<lparr>genome_config = \<lparr>input_keys = [-1, -2], output_keys = [0], compatibility_weight_coefficient = 0.5\<rparr>\<rparr>"

section \<open>Properties\<close>

text \<open>
  Claim C9. The distance of two node genes is the sum of the absolute differences of
  \<open>a\<close>, \<open>b\<close>, \<open>c\<close> and \<open>d\<close> times the compatibility weight coefficient; the
  bias takes no part in it. So the distance of a gene to itself is zero, the distance
  is symmetric, and doubling the coefficient doubles the distance.
\<close>

theorem distance_properties:
  "distance x y cfg =
     (\<bar>IZNodeGene.a x - IZNodeGene.a y\<bar> + \<bar>IZNodeGene.b x - IZNodeGene.b y\<bar> +
      \<bar>IZNodeGene.c x - IZNodeGene.c y\<bar> + \<bar>IZNodeGene.d x - IZNodeGene.d y\<bar>) *
     compatibility_weight_coefficient cfg
   \<and> distance (x\<lparr>IZNodeGene.bias := p\<rparr>) (y\<lparr>IZNodeGene.bias := q\<rparr>) cfg = distance x y cfg
   \<and> distance x x cfg = 0
   \<and> distance x y cfg = distance y x cfg
   \<and> distance x y (cfg\<lparr>compatibility_weight_coefficient := 2 * compatibility_weight_coefficient cfg\<rparr>)
       = 2 * distance x y cfg"
  by (simp add: distance_def abs_minus_commute)

lemma IZNeuron_advance_params:
  "IZNeuron.a (IZNeuron_advance dt n) = IZNeuron.a n"
  "IZNeuron.b (IZNeuron_advance dt n) = IZNeuron.b n"
  "IZNeuron.c (IZNeuron_advance dt n) = IZNeuron.c n"
  "IZNeuron.d (IZNeuron_advance dt n) = IZNeuron.d n"
  "IZNeuron.bias (IZNeuron_advance dt n) = IZNeuron.bias n"
  "IZNeuron.inputs (IZNeuron_advance dt n) = IZNeuron.inputs n"
  "current (IZNeuron_advance dt n) = current n"
  by (simp_all add: IZNeuron_advance_def try_body_def half_step_def on_overflow_def
        spike_check_def Let_def split: option.splits prod.splits if_splits)




lemma half_step_Some:
  "half_step dt s = Some s' \<Longrightarrow> s' = s\<lparr>v := euler_half dt (v s) (u s) (current s)\<rparr>"
  by (auto simp add: half_step_def float_pow2_def euler_half_def power2_eq_square
        split: option.splits if_splits)

lemma try_body_no_overflow:
  assumes "\<not> fst (try_body dt n)"
  shows "try_body dt n =
           (False, n\<lparr>v := euler_half dt (euler_half dt (v n) (u n) (current n)) (u n) (current n),
                      u := u n + dt * IZNeuron.a n *
                             (IZNeuron.b n * euler_half dt (euler_half dt (v n) (u n) (current n)) (u n) (current n)
                              - u n)\<rparr>)"
proof (cases "half_step dt n")
  case None
  with assms show ?thesis by (simp add: try_body_def)
next
  case (Some s1)
  note s1 = half_step_Some [OF Some]
  show ?thesis
  proof (cases "half_step dt s1")
    case None
    with Some assms show ?thesis by (simp add: try_body_def)
  next
    case (Some s2)
    note s2 = half_step_Some [OF Some]
    from \<open>half_step dt n = Some s1\<close> Some have "try_body dt n =
        (False, s2\<lparr>u := u s2 + dt * IZNeuron.a s2 * (IZNeuron.b s2 * v s2 - u s2)\<rparr>)"
      by (simp add: try_body_def)
    then show ?thesis by (simp add: s1 s2)
  qed
qed

text \<open>
  Claim C3. When the \<^verbatim>\<open>try\<close> body raises no overflow, \<^verbatim>\<open>advance\<close> applies the
  half-step to \<open>v\<close> twice with the same \<open>current\<close> and the same \<open>u\<close>, then moves
  \<open>u\<close> by \<open>dt * a * (b * v - u)\<close> with the \<open>v\<close> of the two half-steps. The
  neuron fires (\<open>fired = 1\<close>) exactly when that \<open>v\<close> is above 30; then \<open>v\<close>
  becomes \<open>c\<close> and \<open>u\<close> is the integrated \<open>u\<close> plus \<open>d\<close>. Otherwise
  \<open>fired = 0\<close> and the integrated \<open>v\<close> and \<open>u\<close> stay.
\<close>

theorem advance_no_overflow:
  assumes "\<not> fst (try_body dt n)"
  shows "let v1 = euler_half dt (v n) (u n) (current n);
             v2 = euler_half dt v1 (u n) (current n);
             u3 = u n + dt * IZNeuron.a n * (IZNeuron.b n * v2 - u n)
         in IZNeuron_advance dt n =
              (if v2 > 30 then n\<lparr>v := IZNeuron.c n, u := u3 + IZNeuron.d n, fired := 1\<rparr>
               else n\<lparr>v := v2, u := u3, fired := 0\<rparr>)
            \<and> (fired (IZNeuron_advance dt n) = 1 \<longleftrightarrow> v2 > 30)
            \<and> (fired (IZNeuron_advance dt n) = 0 \<longleftrightarrow> \<not> v2 > 30)"
  by (simp add: IZNeuron_advance_def try_body_no_overflow [OF assms] spike_check_def Let_def)

lemma advance_overflow_low_reset:
  assumes "fst (try_body dt n)" "IZNeuron.c n \<le> 30"
  shows "IZNeuron_advance dt n = n\<lparr>v := IZNeuron.c n, u := IZNeuron.b n * IZNeuron.c n, fired := 0\<rparr>"
  using assms
  by (auto simp add: IZNeuron_advance_def try_body_def half_step_def on_overflow_def
        spike_check_def Let_def split: option.splits prod.splits if_splits)

lemma advance_overflow_high_reset:
  assumes "fst (try_body dt n)" "IZNeuron.c n > 30"
  shows "IZNeuron_advance dt n =
           n\<lparr>v := IZNeuron.c n, u := IZNeuron.b n * IZNeuron.c n + IZNeuron.d n, fired := 1\<rparr>"
  using assms
  by (auto simp add: IZNeuron_advance_def try_body_def half_step_def on_overflow_def
        spike_check_def Let_def split: option.splits prod.splits if_splits)

text \<open>
  Claim C1 says that an overflow during the integration leaves \<open>v = c\<close>,
  \<open>u = b * c\<close> and \<open>fired = 0\<close>. The handler of \<^verbatim>\<open>advance\<close> ("Reset without
  producing a spike") sets \<open>v\<close> and \<open>u\<close> so, but the threshold test after it reads
  the \<open>v\<close> the handler has just set. For a neuron with \<open>c = 50\<close> and bias
  \<open>10\<^sup>3\<^sup>0\<^sup>0\<close>, stepped by 0.05 from its initial state, the second half-step
  overflows, and the call ends with \<open>fired = 1\<close> and \<open>u = b * c + d = 18\<close>.
\<close>

theorem overflow_spike_at_high_reset:
  "fst (try_body 0.05 (IZNeuron_init (10 ^ 300) 0.02 0.2 50 8 []))
   \<and> IZNeuron_advance 0.05 (IZNeuron_init (10 ^ 300) 0.02 0.2 50 8 [])
       = (IZNeuron_init (10 ^ 300) 0.02 0.2 50 8 [])\<lparr>v := 50, u := 18, fired := 1\<rparr>"
  by (simp add: IZNeuron_advance_def try_body_def half_step_def on_overflow_def float_pow2_def float_max_def
        spike_check_def Let_def IZNeuron_init_def)

lemma source_value_current:
  "source_value (dn @ (k, n\<lparr>current := x\<rparr>) # rest) iv = source_value (dn @ (k, n) # rest) iv"
  by (rule ext) (simp add: source_value_def map_add_def split: option.splits)

lemma add_inputs_weighted_sum:
  "add_inputs dn k rest iv ins n =
     (fst (weighted_sum (source_value (dn @ (k, n) # rest) iv) ins (current n)),
      n\<lparr>current := snd (weighted_sum (source_value (dn @ (k, n) # rest) iv) ins (current n))\<rparr>)"
proof (induction ins arbitrary: n)
  case Nil
  show ?case by simp
next
  case (Cons p ins)
  obtain i w where p: "p = (i, w)" by (cases p)
  show ?case
  proof (cases "map_of (dn @ (k, n) # rest) i")
    case None
    then have sv: "source_value (dn @ (k, n) # rest) iv i = iv i"
      by (simp only: source_value_def option.case)
    show ?thesis
    proof (cases "iv i")
      case None
      with \<open>map_of (dn @ (k, n) # rest) i = None\<close> sv show ?thesis
        by (simp add: p del: map_of_append)
    next
      case (Some x)
      with \<open>map_of (dn @ (k, n) # rest) i = None\<close> sv show ?thesis
        by (simp add: p Cons.IH source_value_current mult.commute del: map_of_append)
    qed
  next
    case (Some m)
    then have sv: "source_value (dn @ (k, n) # rest) iv i = Some (fired m)"
      by (simp only: source_value_def option.case)
    with Some show ?thesis
      by (simp add: p Cons.IH source_value_current mult.commute del: map_of_append)
  qed
qed

lemma weighted_sum_ok:
  "fst (weighted_sum src ins acc) = None \<longleftrightarrow> (\<forall>(i, w) \<in> set ins. src i \<noteq> None)"
  by (induction src ins acc rule: weighted_sum.induct) (auto split: option.splits)

lemma weighted_sum_error:
  "fst (weighted_sum src ins acc) = Some e \<Longrightarrow> \<exists>i w. e = KeyError i \<and> (i, w) \<in> set ins \<and> src i = None"
  by (induction src ins acc rule: weighted_sum.induct) (auto split: option.splits)

lemma compute_currents_ok:
  assumes "\<forall>(k, n) \<in> set todo. fst (weighted_sum src (IZNeuron.inputs n) (IZNeuron.bias n)) = None"
      and "src = source_value (dn @ todo) iv"
  shows "compute_currents dn todo iv =
           (None, dn @ map (\<lambda>(k, n). (k, n\<lparr>current := snd (weighted_sum src (IZNeuron.inputs n) (IZNeuron.bias n))\<rparr>)) todo)"
  using assms
proof (induction todo arbitrary: dn)
  case Nil
  show ?case by simp
next
  case (Cons p todo)
  obtain k n where p: "p = (k, n)" by (cases p)
  let ?n' = "n\<lparr>current := snd (weighted_sum src (IZNeuron.inputs n) (IZNeuron.bias n))\<rparr>"
  have src: "source_value (dn @ (k, n\<lparr>current := IZNeuron.bias n\<rparr>) # todo) iv = src"
    using Cons.prems(2) by (simp add: p source_value_current)
  have ok: "fst (weighted_sum src (IZNeuron.inputs n) (IZNeuron.bias n)) = None"
    using Cons.prems(1) by (simp add: p)
  have step: "add_inputs dn k todo iv (IZNeuron.inputs n) (n\<lparr>current := IZNeuron.bias n\<rparr>) = (None, ?n')"
    by (simp add: add_inputs_weighted_sum src ok)
  have src': "src = source_value ((dn @ [(k, ?n')]) @ todo) iv"
    using Cons.prems(2) by (simp add: p source_value_current)
  have "compute_currents (dn @ [(k, ?n')]) todo iv =
          (None, (dn @ [(k, ?n')]) @ map (\<lambda>(k, n). (k, n\<lparr>current := snd (weighted_sum src (IZNeuron.inputs n) (IZNeuron.bias n))\<rparr>)) todo)"
    using Cons.prems(1) by (intro Cons.IH [OF _ src']) (simp add: p)
  then show ?case by (simp add: p step)
qed

lemma compute_currents_without_current:
  "without_current (snd (compute_currents dn todo iv)) = without_current (dn @ todo)"
proof (induction todo arbitrary: dn)
  case Nil
  show ?case by simp
next
  case (Cons p todo)
  obtain k n where p: "p = (k, n)" by (cases p)
  show ?case
    by (cases "fst (weighted_sum (source_value (dn @ (k, n\<lparr>current := IZNeuron.bias n\<rparr>) # todo) iv)
                 (IZNeuron.inputs n) (IZNeuron.bias n))")
       (simp_all add: p add_inputs_weighted_sum Cons.IH, simp_all add: without_current_def)
qed

lemma compute_currents_error:
  assumes "src = source_value (dn @ todo) iv"
      and "fst (compute_currents dn todo iv) = Some e"
  shows "\<exists>(k, n) \<in> set todo. fst (weighted_sum src (IZNeuron.inputs n) (IZNeuron.bias n)) = Some e"
  using assms
proof (induction todo arbitrary: dn)
  case Nil
  then show ?case by simp
next
  case (Cons p todo)
  obtain k n where p: "p = (k, n)" by (cases p)
  have src: "source_value (dn @ (k, n\<lparr>current := IZNeuron.bias n\<rparr>) # todo) iv = src"
    using Cons.prems(1) by (simp add: p source_value_current)
  show ?case
  proof (cases "fst (weighted_sum src (IZNeuron.inputs n) (IZNeuron.bias n))")
    case None
    let ?n' = "n\<lparr>current := snd (weighted_sum src (IZNeuron.inputs n) (IZNeuron.bias n))\<rparr>"
    have src': "src = source_value ((dn @ [(k, ?n')]) @ todo) iv"
      using Cons.prems(1) by (simp add: p source_value_current)
    have "fst (compute_currents (dn @ [(k, ?n')]) todo iv) = Some e"
      using Cons.prems(2) None by (simp add: p add_inputs_weighted_sum src)
    from Cons.IH [OF src' this] show ?thesis by (auto simp add: p)
  next
    case (Some e')
    with Cons.prems(2) have "e' = e"
      by (simp add: p add_inputs_weighted_sum src)
    with Some show ?thesis by (simp add: p)
  qed
qed

lemma compute_currents_fails:
  assumes "src = source_value (dn @ todo) iv"
      and "\<exists>(k, n) \<in> set todo. fst (weighted_sum src (IZNeuron.inputs n) (IZNeuron.bias n)) \<noteq> None"
  shows "fst (compute_currents dn todo iv) \<noteq> None"
  using assms
proof (induction todo arbitrary: dn)
  case Nil
  then show ?case by simp
next
  case (Cons p todo)
  obtain k n where p: "p = (k, n)" by (cases p)
  have src: "source_value (dn @ (k, n\<lparr>current := IZNeuron.bias n\<rparr>) # todo) iv = src"
    using Cons.prems(1) by (simp add: p source_value_current)
  show ?case
  proof (cases "fst (weighted_sum src (IZNeuron.inputs n) (IZNeuron.bias n))")
    case None
    let ?n' = "n\<lparr>current := snd (weighted_sum src (IZNeuron.inputs n) (IZNeuron.bias n))\<rparr>"
    have src': "src = source_value ((dn @ [(k, ?n')]) @ todo) iv"
      using Cons.prems(1) by (simp add: p source_value_current)
    have "\<exists>(k, n) \<in> set todo. fst (weighted_sum src (IZNeuron.inputs n) (IZNeuron.bias n)) \<noteq> None"
      using Cons.prems(2) None by (auto simp add: p)
    from Cons.IH [OF src' this] None show ?thesis
      by (simp add: p add_inputs_weighted_sum src)
  next
    case (Some e')
    then show ?thesis by (simp add: p add_inputs_weighted_sum src)
  qed
qed

lemma output_values_ok:
  "set outs \<subseteq> fst ` set ns \<Longrightarrow>
   \<exists>res. output_values ns outs = Inr res \<and> map Some res = map (\<lambda>k. map_option fired (map_of ns k)) outs"
proof (induction outs)
  case Nil
  show ?case by simp
next
  case (Cons k outs)
  then obtain res where res: "output_values ns outs = Inr res"
      "map Some res = map (\<lambda>k. map_option fired (map_of ns k)) outs"
    by auto
  from Cons.prems have "k \<in> fst ` set ns" by simp
  then obtain n where "map_of ns k = Some n"
    by (metis domD dom_map_of_conv_image_fst)
  with res show ?case by simp
qed

lemma sources_bound_iff:
  "sources_bound net \<longleftrightarrow>
     (\<forall>(k, n) \<in> set (neurons net).
        fst (weighted_sum (source_value (neurons net) (input_values net)) (IZNeuron.inputs n) (IZNeuron.bias n)) = None)"
  by (simp add: sources_bound_def list_all_iff weighted_sum_ok split_beta)

lemma IZNN_advance_bound:
  assumes "sources_bound net"
  shows "IZNN_advance dt net = (output_values (stepped dt net) (outputs net), net\<lparr>neurons := stepped dt net\<rparr>)"
proof -
  let ?src = "source_value (neurons net) (input_values net)"
  have "compute_currents [] (neurons net) (input_values net) =
          (None, [] @ map (\<lambda>(k, n). (k, n\<lparr>current := snd (weighted_sum ?src (IZNeuron.inputs n) (IZNeuron.bias n))\<rparr>)) (neurons net))"
    using assms by (intro compute_currents_ok) (simp_all add: sources_bound_iff)
  then show ?thesis
    by (simp add: IZNN_advance_def stepped_def frozen_current_def case_prod_unfold o_def Let_def)
qed

lemma source_value_cong:
  "map_of ns2 = map_of ns \<Longrightarrow> source_value ns2 iv = source_value ns iv"
  by (rule ext) (simp add: source_value_def)

lemma map_of_stepped:
  "map_of (stepped dt net) k =
     map_option (\<lambda>n. IZNeuron_advance dt (n\<lparr>current := frozen_current net n\<rparr>)) (map_of (neurons net) k)"
  by (simp add: stepped_def map_of_map)

lemma same_dict_stepped:
  assumes "distinct (map fst (neurons net))" "distinct (map fst (neurons net2))"
      and "set (neurons net2) = set (neurons net)" "input_values net2 = input_values net"
  shows "frozen_current net2 = frozen_current net"
    and "sources_bound net2 = sources_bound net"
    and "map_of (stepped dt net2) = map_of (stepped dt net)"
    and "set (stepped dt net2) = set (stepped dt net)"
proof -
  have m: "map_of (neurons net2) = map_of (neurons net)"
    using assms(1-3) by (simp add: map_of_inject_set)
  have sv: "source_value (neurons net2) (input_values net2) = source_value (neurons net) (input_values net)"
    by (simp only: source_value_cong [OF m] assms(4))
  show fc: "frozen_current net2 = frozen_current net"
    by (rule ext) (simp add: frozen_current_def sv)
  show "sources_bound net2 = sources_bound net"
    by (simp add: sources_bound_iff sv assms(3))
  show "map_of (stepped dt net2) = map_of (stepped dt net)"
    by (rule ext) (simp add: map_of_stepped fc m)
  show "set (stepped dt net2) = set (stepped dt net)"
    by (simp add: stepped_def fc assms(3))
qed

lemma stepped_keys: "fst ` set (stepped dt net) = fst ` set (neurons net)"
  by (simp add: stepped_def image_image split_beta)

text \<open>
  Claim C2. When every source of every neuron has a value and every output key has a
  neuron, \<^verbatim>\<open>IZNN.advance\<close> returns normally. The network it leaves holds, entry by
  entry, the neuron advanced once with the current of phase 1: its bias plus, along its
  input list, weight times the \<open>fired\<close> the source neuron had before the call, or
  times the supplied input value when the source is not a neuron. The result lists
  the new \<open>fired\<close> of the output neurons in the order of the output keys, one per
  key. A network holding the same neurons under the same keys in another order returns
  the same list and leaves the same neurons.
\<close>

theorem advance_two_phase:
  assumes "sources_bound net" and "set (outputs net) \<subseteq> fst ` set (neurons net)"
  shows "\<exists>res. IZNN_advance dt net = (Inr res, net\<lparr>neurons := stepped dt net\<rparr>)
           \<and> map Some res = map (\<lambda>k. map_option fired (map_of (stepped dt net) k)) (outputs net)
           \<and> length res = length (outputs net)
           \<and> (\<forall>net2. distinct (map fst (neurons net)) \<and> distinct (map fst (neurons net2))
                 \<and> set (neurons net2) = set (neurons net) \<and> outputs net2 = outputs net
                 \<and> input_values net2 = input_values net
                 \<longrightarrow> fst (IZNN_advance dt net2) = Inr res
                     \<and> set (neurons (snd (IZNN_advance dt net2))) = set (stepped dt net))"
proof -
  from assms(2) have "set (outputs net) \<subseteq> fst ` set (stepped dt net)"
    by (simp add: stepped_keys)
  from output_values_ok [OF this] obtain res where
    res: "output_values (stepped dt net) (outputs net) = Inr res"
         "map Some res = map (\<lambda>k. map_option fired (map_of (stepped dt net) k)) (outputs net)"
    by blast
  have "length (map Some res) = length (map (\<lambda>k. map_option fired (map_of (stepped dt net) k)) (outputs net))"
    by (simp only: res(2))
  then have len: "length res = length (outputs net)"
    by simp
  have other: "fst (IZNN_advance dt net2) = Inr res
               \<and> set (neurons (snd (IZNN_advance dt net2))) = set (stepped dt net)"
    if h: "distinct (map fst (neurons net))" "distinct (map fst (neurons net2))"
          "set (neurons net2) = set (neurons net)" "outputs net2 = outputs net"
          "input_values net2 = input_values net" for net2
  proof -
    note sd = same_dict_stepped [OF h(1,2,3,5)]
    have b2: "sources_bound net2" using assms(1) sd(2) by simp
    have "set (outputs net2) \<subseteq> fst ` set (stepped dt net2)"
      using assms(2) h(3,4) by (simp add: stepped_keys)
    from output_values_ok [OF this] obtain res2 where
      res2: "output_values (stepped dt net2) (outputs net2) = Inr res2"
            "map Some res2 = map (\<lambda>k. map_option fired (map_of (stepped dt net2) k)) (outputs net2)"
      by blast
    from res2(2) res(2) have "map Some res2 = map Some res"
      by (simp add: sd(3) h(4))
    then have "res2 = res" by (rule map_injective) simp
    with res2(1) show ?thesis
      by (simp add: IZNN_advance_bound [OF b2] sd(4))
  qed
  have here: "IZNN_advance dt net = (Inr res, net\<lparr>neurons := stepped dt net\<rparr>)"
    by (simp add: IZNN_advance_bound [OF assms(1)] res(1))
  show ?thesis
  proof (intro exI [of _ res] conjI allI impI)
    show "IZNN_advance dt net = (Inr res, net\<lparr>neurons := stepped dt net\<rparr>)" by (rule here)
    show "map Some res = map (\<lambda>k. map_option fired (map_of (stepped dt net) k)) (outputs net)"
      by (rule res(2))
    show "length res = length (outputs net)" by (rule len)
  next
    fix net2 :: IZNN
    assume h: "distinct (map fst (neurons net)) \<and> distinct (map fst (neurons net2))
                 \<and> set (neurons net2) = set (neurons net) \<and> outputs net2 = outputs net
                 \<and> input_values net2 = input_values net"
    from h other [of net2] show "fst (IZNN_advance dt net2) = Inr res" by blast
    from h other [of net2] show "set (neurons (snd (IZNN_advance dt net2))) = set (stepped dt net)" by blast
  qed
qed

lemma not_bound_fails:
  assumes "\<not> sources_bound net"
  shows "\<exists>i. fst (compute_currents [] (neurons net) (input_values net)) = Some (KeyError i)
            \<and> source_value (neurons net) (input_values net) i = None
            \<and> (\<exists>(k, n) \<in> set (neurons net). i \<in> fst ` set (IZNeuron.inputs n))"
proof -
  let ?src = "source_value (neurons net) (input_values net)"
  have src: "?src = source_value ([] @ neurons net) (input_values net)" by simp
  from assms have "\<exists>(k, n) \<in> set (neurons net).
      fst (weighted_sum ?src (IZNeuron.inputs n) (IZNeuron.bias n)) \<noteq> None"
    by (simp add: sources_bound_iff split_beta)
  from compute_currents_fails [OF src this] obtain e where
    e: "fst (compute_currents [] (neurons net) (input_values net)) = Some e"
    by auto
  from compute_currents_error [OF src e] obtain k n where
    kn: "(k, n) \<in> set (neurons net)" "fst (weighted_sum ?src (IZNeuron.inputs n) (IZNeuron.bias n)) = Some e"
    by auto
  from weighted_sum_error [OF kn(2)] obtain i w where
    "e = KeyError i" "(i, w) \<in> set (IZNeuron.inputs n)" "?src i = None"
    by blast
  with e kn(1) show ?thesis by force
qed

lemma source_value_off_keys:
  assumes "\<forall>i. i \<notin> fst ` set ns \<longrightarrow> iv2 i = iv i"
  shows "source_value ns iv2 = source_value ns iv"
proof (rule ext)
  fix i
  show "source_value ns iv2 i = source_value ns iv i"
  proof (cases "map_of ns i")
    case None
    then have "i \<notin> fst ` set ns" by (simp add: map_of_eq_None_iff)
    with assms None show ?thesis by (simp add: source_value_def)
  next
    case (Some m)
    then show ?thesis by (simp add: source_value_def)
  qed
qed

lemma compute_currents_off_keys:
  assumes "\<forall>i. i \<notin> fst ` set (dn @ todo) \<longrightarrow> iv2 i = iv i"
  shows "compute_currents dn todo iv2 = compute_currents dn todo iv"
  using assms
proof (induction todo arbitrary: dn)
  case Nil
  show ?case by simp
next
  case (Cons p todo)
  obtain k n where p: "p = (k, n)" by (cases p)
  have "\<forall>i. i \<notin> fst ` set (dn @ (k, n\<lparr>current := IZNeuron.bias n\<rparr>) # todo) \<longrightarrow> iv2 i = iv i"
    using Cons.prems by (simp add: p)
  then have sv: "source_value (dn @ (k, n\<lparr>current := IZNeuron.bias n\<rparr>) # todo) iv2 =
             source_value (dn @ (k, n\<lparr>current := IZNeuron.bias n\<rparr>) # todo) iv"
    by (rule source_value_off_keys)
  have ih: "compute_currents (dn @ [(k, n')]) todo iv2 = compute_currents (dn @ [(k, n')]) todo iv" for n'
    using Cons.prems by (intro Cons.IH) (simp add: p)
  show ?case
    by (simp add: p add_inputs_weighted_sum sv ih del: map_of_append split: option.splits)
qed

lemma IZNN_advance_currents:
  assumes "sources_bound net"
  shows "map (\<lambda>(k, n). current n) (neurons (snd (IZNN_advance dt net))) =
         map (\<lambda>(k, n). frozen_current net n) (neurons net)"
  by (simp add: IZNN_advance_bound [OF assms] stepped_def IZNeuron_advance_params case_prod_unfold o_def)

text \<open>
  Claim C10. In the loop over the inputs of a neuron, a source key that is the key of
  a neuron contributes that neuron's \<open>fired\<close> times the weight, whatever
  \<^verbatim>\<open>input_values\<close> holds for the key. For the whole step: changing
  \<^verbatim>\<open>input_values\<close> at keys of neurons changes neither the result of
  \<^verbatim>\<open>IZNN.advance\<close> nor the neurons it leaves. When every source has a value,
  the neurons \<^verbatim>\<open>IZNN.advance\<close> leaves are the old ones advanced with, and still
  holding, the current summed from the bias with each source valued by the lookup
  "the \<open>fired\<close> of the neuron with that key, else the input value"; in that sum a
  source that is a neuron key adds weight times that neuron's \<open>fired\<close>.
\<close>

theorem neuron_precedes_input_value:
  "(map_of (dn @ (k, n) # rest) i = Some m \<longrightarrow>
      add_inputs dn k rest iv ((i, w) # ins) n =
        add_inputs dn k rest iv ins (n\<lparr>current := current n + fired m * w\<rparr>))
   \<and> ((\<forall>i. i \<notin> fst ` set (neurons net) \<longrightarrow> iv2 i = input_values net i) \<longrightarrow>
        IZNN_advance dt (net\<lparr>input_values := iv2\<rparr>) =
          (fst (IZNN_advance dt net), (snd (IZNN_advance dt net))\<lparr>input_values := iv2\<rparr>))
   \<and> (sources_bound net \<longrightarrow>
        neurons (snd (IZNN_advance dt net)) =
          map (\<lambda>(k, n). (k, IZNeuron_advance dt
                 (n\<lparr>current := snd (weighted_sum
                      (\<lambda>j. case map_of (neurons net) j of Some s \<Rightarrow> Some (fired s) | None \<Rightarrow> input_values net j)
                      (IZNeuron.inputs n) (IZNeuron.bias n))\<rparr>))) (neurons net)
        \<and> map (\<lambda>(k, n). current n) (neurons (snd (IZNN_advance dt net))) =
          map (\<lambda>(k, n). snd (weighted_sum
                      (\<lambda>j. case map_of (neurons net) j of Some s \<Rightarrow> Some (fired s) | None \<Rightarrow> input_values net j)
                      (IZNeuron.inputs n) (IZNeuron.bias n))) (neurons net))
   \<and> (map_of (neurons net) q = Some s \<longrightarrow>
        weighted_sum (\<lambda>j. case map_of (neurons net) j of Some s \<Rightarrow> Some (fired s) | None \<Rightarrow> input_values net j)
          ((q, x) # others) acc =
        weighted_sum (\<lambda>j. case map_of (neurons net) j of Some s \<Rightarrow> Some (fired s) | None \<Rightarrow> input_values net j)
          others (acc + x * fired s))"
proof (intro conjI impI)
  assume "map_of (dn @ (k, n) # rest) i = Some m"
  then show "add_inputs dn k rest iv ((i, w) # ins) n =
        add_inputs dn k rest iv ins (n\<lparr>current := current n + fired m * w\<rparr>)"
    by (simp del: map_of_append)
next
  assume "\<forall>i. i \<notin> fst ` set (neurons net) \<longrightarrow> iv2 i = input_values net i"
  then have "compute_currents [] (neurons net) iv2 = compute_currents [] (neurons net) (input_values net)"
    by (intro compute_currents_off_keys) simp
  then show "IZNN_advance dt (net\<lparr>input_values := iv2\<rparr>) =
          (fst (IZNN_advance dt net), (snd (IZNN_advance dt net))\<lparr>input_values := iv2\<rparr>)"
    by (simp add: IZNN_advance_def Let_def split: prod.splits option.splits)
next
  assume b: "sources_bound net"
  have sv: "(\<lambda>j. case map_of (neurons net) j of Some s \<Rightarrow> Some (fired s) | None \<Rightarrow> input_values net j)
              = source_value (neurons net) (input_values net)"
    by (rule ext) (simp add: source_value_def)
  show "neurons (snd (IZNN_advance dt net)) =
          map (\<lambda>(k, n). (k, IZNeuron_advance dt
                 (n\<lparr>current := snd (weighted_sum
                      (\<lambda>j. case map_of (neurons net) j of Some s \<Rightarrow> Some (fired s) | None \<Rightarrow> input_values net j)
                      (IZNeuron.inputs n) (IZNeuron.bias n))\<rparr>))) (neurons net)"
    unfolding sv by (simp add: IZNN_advance_bound [OF b] stepped_def frozen_current_def)
  show "map (\<lambda>(k, n). current n) (neurons (snd (IZNN_advance dt net))) =
          map (\<lambda>(k, n). snd (weighted_sum
                      (\<lambda>j. case map_of (neurons net) j of Some s \<Rightarrow> Some (fired s) | None \<Rightarrow> input_values net j)
                      (IZNeuron.inputs n) (IZNeuron.bias n))) (neurons net)"
    unfolding sv by (simp add: IZNN_advance_currents [OF b] frozen_current_def)
next
  assume "map_of (neurons net) q = Some s"
  then show "weighted_sum (\<lambda>j. case map_of (neurons net) j of Some s \<Rightarrow> Some (fired s) | None \<Rightarrow> input_values net j)
          ((q, x) # others) acc =
        weighted_sum (\<lambda>j. case map_of (neurons net) j of Some s \<Rightarrow> Some (fired s) | None \<Rightarrow> input_values net j)
          others (acc + x * fired s)"
    by simp
qed

lemma fired_advance: "fired (IZNeuron_advance dt n) = 0 \<or> fired (IZNeuron_advance dt n) = 1"
  by (simp add: IZNeuron_advance_def spike_check_def Let_def split: prod.splits bool.splits)

text \<open>
  Claim C7. The field \<open>fired\<close> is 0 or 1 in a neuron just built, after
  \<^verbatim>\<open>IZNeuron.advance\<close>, after \<^verbatim>\<open>IZNeuron.reset\<close>, in every neuron of a network
  after \<^verbatim>\<open>IZNN.advance\<close> has returned, and in every neuron after \<^verbatim>\<open>IZNN.reset\<close>.
\<close>

theorem fired_is_binary:
  "fired (IZNeuron_init p a0 b0 c0 d0 ins) \<in> {0, 1}
   \<and> fired (IZNeuron_advance dt n) \<in> {0, 1}
   \<and> fired (IZNeuron_reset n) \<in> {0, 1}
   \<and> (\<forall>res net'. IZNN_advance dt net = (Inr res, net') \<longrightarrow> (\<forall>(k, m) \<in> set (neurons net'). fired m \<in> {0, 1}))
   \<and> (\<forall>(k, m) \<in> set (neurons (IZNN_reset net)). fired m \<in> {0, 1})"
proof (intro conjI allI impI)
  show "fired (IZNeuron_init p a0 b0 c0 d0 ins) \<in> {0, 1}" by (simp add: IZNeuron_init_def)
  show "fired (IZNeuron_advance dt n) \<in> {0, 1}" using fired_advance [of dt n] by auto
  show "fired (IZNeuron_reset n) \<in> {0, 1}" by (simp add: IZNeuron_reset_def Let_def)
  show "\<forall>(k, m) \<in> set (neurons (IZNN_reset net)). fired m \<in> {0, 1}"
    by (auto simp add: IZNN_reset_def IZNeuron_reset_def Let_def)
next
  fix res net'
  assume "IZNN_advance dt net = (Inr res, net')"
  then obtain ns where "neurons net' = map (\<lambda>(k, n). (k, IZNeuron_advance dt n)) ns"
    by (auto simp add: IZNN_advance_def Let_def split: prod.splits option.splits)
  then show "\<forall>(k, m) \<in> set (neurons net'). fired m \<in> {0, 1}"
    using fired_advance by auto
qed

lemma assign_inputs_map_upds: "assign_inputs (zip ks vs) m = m(ks [\<mapsto>] vs)"
proof (induction ks arbitrary: vs m)
  case Nil
  show ?case by simp
next
  case (Cons k ks)
  show ?case by (cases vs) (simp_all add: Cons.IH fun_upd_def)
qed

lemma map_upds_last_wins:
  assumes "i < length ks" "length vs = length ks"
      and "\<forall>j. i < j \<and> j < length ks \<longrightarrow> ks ! j \<noteq> ks ! i"
  shows "(m(ks [\<mapsto>] vs)) (ks ! i) = Some (vs ! i)"
  using assms
proof (induction ks arbitrary: vs i m)
  case Nil
  then show ?case by simp
next
  case (Cons k ks)
  then obtain x xs where vs: "vs = x # xs" by (cases vs) auto
  show ?case
  proof (cases i)
    case 0
    have "k \<notin> set ks"
    proof
      assume "k \<in> set ks"
      then obtain j where "j < length ks" "ks ! j = k" by (auto simp add: in_set_conv_nth)
      with Cons.prems(3) [rule_format, of "Suc j"] 0 show False by simp
    qed
    then show ?thesis by (simp add: 0 vs)
  next
    case (Suc i')
    have "\<forall>j. i' < j \<and> j < length ks \<longrightarrow> ks ! j \<noteq> ks ! i'"
    proof (intro allI impI)
      fix j assume "i' < j \<and> j < length ks"
      with Cons.prems(3) [rule_format, of "Suc j"] Suc show "ks ! j \<noteq> ks ! i'" by simp
    qed
    with Cons.prems Suc vs show ?thesis by (simp add: Cons.IH)
  qed
qed

text \<open>
  Claim C6. \<^verbatim>\<open>set_inputs\<close> with a number of values other than the number of input
  keys raises \<^verbatim>\<open>AssertionError\<close> and leaves the network as it was. With as many
  values as keys it assigns \<open>input_values[inputs[i]] = values[i]\<close> for every index
  in turn and touches nothing else; afterwards the key at index \<open>i\<close> holds
  \<open>values[i]\<close>, for every index whose key does not occur again later in the list.
\<close>

theorem set_inputs_checked:
  "(length vals \<noteq> length (IZNN.inputs net) \<longrightarrow> IZNN_set_inputs vals net = (Some AssertionError, net))
   \<and> (length vals = length (IZNN.inputs net) \<longrightarrow>
        IZNN_set_inputs vals net = (None, net\<lparr>input_values := (input_values net)(IZNN.inputs net [\<mapsto>] vals)\<rparr>)
        \<and> (\<forall>i < length vals.
              (\<forall>j. i < j \<and> j < length vals \<longrightarrow> IZNN.inputs net ! j \<noteq> IZNN.inputs net ! i) \<longrightarrow>
              input_values (snd (IZNN_set_inputs vals net)) (IZNN.inputs net ! i) = Some (vals ! i)))"
  by (simp add: IZNN_set_inputs_def assign_inputs_map_upds map_upds_last_wins)

lemma gather_inputs_get:
  "(case gather_inputs required cgs ni k of None \<Rightarrow> [] | Some l \<Rightarrow> l) =
     (case ni k of None \<Rightarrow> [] | Some l \<Rightarrow> l) @ inputs_of required cgs k"
proof (induction cgs arbitrary: ni)
  case Nil
  show ?case by (simp add: inputs_of_def)
next
  case (Cons cg cgs)
  obtain i o' where key: "key cg = (i, o')" by (cases "key cg")
  have tail: "inputs_of required (cg # cgs) k =
      (if enabled cg \<and> (i \<in> set required \<or> o' \<in> set required) \<and> o' = k then [(i, weight cg)] else [])
      @ inputs_of required cgs k"
    by (auto simp add: inputs_of_def key)
  show ?case
    by (cases "ni o'") (auto simp add: key tail Cons.IH)
qed

lemma gather_inputs_empty:
  "(case gather_inputs required cgs Map.empty k of None \<Rightarrow> [] | Some l \<Rightarrow> l) = inputs_of required cgs k"
  by (simp add: gather_inputs_get)

lemma make_neurons_ok:
  assumes "\<forall>k \<in> set req. nodes genome k \<noteq> None" and "distinct (map fst ns)"
  shows "\<exists>ns'. make_neurons genome ni req ns = Inr ns'
           \<and> distinct (map fst ns')
           \<and> fst ` set ns' = fst ` set ns \<union> set req
           \<and> (\<forall>k. k \<notin> set req \<longrightarrow> map_of ns' k = map_of ns k)
           \<and> (\<forall>k \<in> set req. \<exists>ng. nodes genome k = Some ng \<and>
                 map_of ns' k = Some (neuron_of ng (case ni k of None \<Rightarrow> [] | Some l \<Rightarrow> l)))"
  using assms
proof (induction req arbitrary: ns)
  case Nil
  then show ?case by simp
next
  case (Cons k req)
  from Cons.prems(1) obtain ng where ng: "nodes genome k = Some ng" by auto
  let ?n = "neuron_of ng (case ni k of None \<Rightarrow> [] | Some l \<Rightarrow> l)"
  let ?ns1 = "AList.update k ?n ns"
  have d1: "distinct (map fst ?ns1)" using Cons.prems(2) by (simp add: distinct_update)
  have r: "\<forall>k \<in> set req. nodes genome k \<noteq> None" using Cons.prems(1) by simp
  from Cons.IH [OF r d1] obtain ns' where ns':
    "make_neurons genome ni req ?ns1 = Inr ns'"
    "distinct (map fst ns')"
    "fst ` set ns' = fst ` set ?ns1 \<union> set req"
    "\<forall>j. j \<notin> set req \<longrightarrow> map_of ns' j = map_of ?ns1 j"
    "\<forall>j \<in> set req. \<exists>ng. nodes genome j = Some ng \<and>
                 map_of ns' j = Some (neuron_of ng (case ni j of None \<Rightarrow> [] | Some l \<Rightarrow> l))"
    by blast
  have run: "make_neurons genome ni (k # req) ns = Inr ns'"
    using ns'(1) by (simp add: ng neuron_of_def)
  have keys: "fst ` set ns' = fst ` set ns \<union> set (k # req)"
    using ns'(3) by (auto simp add: dom_update)
  have old: "\<forall>j. j \<notin> set (k # req) \<longrightarrow> map_of ns' j = map_of ns j"
    using ns'(4) by (simp add: update_conv')
  have new: "\<forall>j \<in> set (k # req). \<exists>ng. nodes genome j = Some ng \<and>
                 map_of ns' j = Some (neuron_of ng (case ni j of None \<Rightarrow> [] | Some l \<Rightarrow> l))"
  proof
    fix j assume j: "j \<in> set (k # req)"
    show "\<exists>ng. nodes genome j = Some ng \<and>
                 map_of ns' j = Some (neuron_of ng (case ni j of None \<Rightarrow> [] | Some l \<Rightarrow> l))"
    proof (cases "j \<in> set req")
      case True
      with ns'(5) show ?thesis by blast
    next
      case False
      with j have "j = k" by simp
      with False ns'(4) ng show ?thesis by (simp add: update_conv')
    qed
  qed
  from run ns'(2) keys old new show ?case by blast
qed

text \<open>
  Claim C4. When every required key has a node gene, \<^verbatim>\<open>create\<close> returns a network
  with exactly one neuron per required key. The neuron of key \<open>k\<close> has the
  parameters of the node gene of \<open>k\<close> and the initial state, and its input list (the
  field \<open>inputs\<close>) is the source and weight of every enabled connection with an
  endpoint in the required set that ends in \<open>k\<close>, in the order of the connection
  collection, duplicates kept; it is empty when there is none. Disabled connections
  and connections with no required endpoint add nothing. The key sequences are those
  of the configuration and no input value is set.
\<close>

theorem create_builds_required:
  assumes "\<forall>k \<in> set (rfo (input_keys (genome_config config)) (output_keys (genome_config config))
                        (connections genome)). nodes genome k \<noteq> None"
  shows "\<exists>net. IZNN_create rfo genome config = Inr net
           \<and> distinct (map fst (neurons net))
           \<and> fst ` set (neurons net) =
               set (rfo (input_keys (genome_config config)) (output_keys (genome_config config))
                      (connections genome))
           \<and> (\<forall>k \<in> set (rfo (input_keys (genome_config config)) (output_keys (genome_config config))
                           (connections genome)).
                 \<exists>ng n. nodes genome k = Some ng \<and> map_of (neurons net) k = Some n
                   \<and> IZNeuron.inputs n =
                       inputs_of (rfo (input_keys (genome_config config))
                                      (output_keys (genome_config config)) (connections genome))
                         (map snd (connections genome)) k
                   \<and> IZNeuron.bias n = IZNodeGene.bias ng
                   \<and> IZNeuron.a n = IZNodeGene.a ng \<and> IZNeuron.b n = IZNodeGene.b ng
                   \<and> IZNeuron.c n = IZNodeGene.c ng \<and> IZNeuron.d n = IZNodeGene.d ng
                   \<and> v n = IZNodeGene.c ng \<and> u n = IZNodeGene.b ng * IZNodeGene.c ng
                   \<and> fired n = 0 \<and> current n = IZNodeGene.bias ng
                   \<and> n = IZNeuron_init (IZNodeGene.bias ng) (IZNodeGene.a ng) (IZNodeGene.b ng)
                           (IZNodeGene.c ng) (IZNodeGene.d ng)
                           (inputs_of (rfo (input_keys (genome_config config))
                                           (output_keys (genome_config config)) (connections genome))
                              (map snd (connections genome)) k))
           \<and> IZNN.inputs net = input_keys (genome_config config)
           \<and> outputs net = output_keys (genome_config config)
           \<and> input_values net = Map.empty"
proof -
  let ?req = "rfo (input_keys (genome_config config)) (output_keys (genome_config config)) (connections genome)"
  let ?ni = "gather_inputs ?req (map snd (connections genome)) Map.empty"
  have d: "distinct (map fst ([] :: (int \<times> IZNeuron) list))" by simp
  from make_neurons_ok [OF assms d, of ?ni] obtain ns where ns:
    "make_neurons genome ?ni ?req [] = Inr ns"
    "distinct (map fst ns)"
    "fst ` set ns = set ?req"
    "\<forall>k \<in> set ?req. \<exists>ng. nodes genome k = Some ng \<and>
         map_of ns k = Some (neuron_of ng (case ?ni k of None \<Rightarrow> [] | Some l \<Rightarrow> l))"
    by auto
  have run: "IZNN_create rfo genome config =
               Inr (IZNN_init ns (input_keys (genome_config config)) (output_keys (genome_config config)))"
    by (simp add: IZNN_create_def Let_def ns(1))
  have fields: "\<forall>k \<in> set ?req.
      \<exists>ng n. nodes genome k = Some ng \<and> map_of ns k = Some n
        \<and> IZNeuron.inputs n = inputs_of ?req (map snd (connections genome)) k
        \<and> IZNeuron.bias n = IZNodeGene.bias ng
        \<and> IZNeuron.a n = IZNodeGene.a ng \<and> IZNeuron.b n = IZNodeGene.b ng
        \<and> IZNeuron.c n = IZNodeGene.c ng \<and> IZNeuron.d n = IZNodeGene.d ng
        \<and> v n = IZNodeGene.c ng \<and> u n = IZNodeGene.b ng * IZNodeGene.c ng
        \<and> fired n = 0 \<and> current n = IZNodeGene.bias ng
        \<and> n = IZNeuron_init (IZNodeGene.bias ng) (IZNodeGene.a ng) (IZNodeGene.b ng)
                (IZNodeGene.c ng) (IZNodeGene.d ng) (inputs_of ?req (map snd (connections genome)) k)"
  proof
    fix k assume "k \<in> set ?req"
    with ns(4) obtain ng where ng: "nodes genome k = Some ng"
      "map_of ns k = Some (neuron_of ng (case ?ni k of None \<Rightarrow> [] | Some l \<Rightarrow> l))"
      by blast
    let ?n = "neuron_of ng (inputs_of ?req (map snd (connections genome)) k)"
    from ng(2) have m: "map_of ns k = Some ?n" by (simp add: gather_inputs_empty)
    have "IZNeuron.inputs ?n = inputs_of ?req (map snd (connections genome)) k
        \<and> IZNeuron.bias ?n = IZNodeGene.bias ng
        \<and> IZNeuron.a ?n = IZNodeGene.a ng \<and> IZNeuron.b ?n = IZNodeGene.b ng
        \<and> IZNeuron.c ?n = IZNodeGene.c ng \<and> IZNeuron.d ?n = IZNodeGene.d ng
        \<and> v ?n = IZNodeGene.c ng \<and> u ?n = IZNodeGene.b ng * IZNodeGene.c ng
        \<and> fired ?n = 0 \<and> current ?n = IZNodeGene.bias ng
        \<and> ?n = IZNeuron_init (IZNodeGene.bias ng) (IZNodeGene.a ng) (IZNodeGene.b ng)
                (IZNodeGene.c ng) (IZNodeGene.d ng) (inputs_of ?req (map snd (connections genome)) k)"
      by (simp add: neuron_of_def IZNeuron_init_def)
    with ng(1) m show "\<exists>ng n. nodes genome k = Some ng \<and> map_of ns k = Some n
        \<and> IZNeuron.inputs n = inputs_of ?req (map snd (connections genome)) k
        \<and> IZNeuron.bias n = IZNodeGene.bias ng
        \<and> IZNeuron.a n = IZNodeGene.a ng \<and> IZNeuron.b n = IZNodeGene.b ng
        \<and> IZNeuron.c n = IZNodeGene.c ng \<and> IZNeuron.d n = IZNodeGene.d ng
        \<and> v n = IZNodeGene.c ng \<and> u n = IZNodeGene.b ng * IZNodeGene.c ng
        \<and> fired n = 0 \<and> current n = IZNodeGene.bias ng
        \<and> n = IZNeuron_init (IZNodeGene.bias ng) (IZNodeGene.a ng) (IZNodeGene.b ng)
                (IZNodeGene.c ng) (IZNodeGene.d ng) (inputs_of ?req (map snd (connections genome)) k)"
      by blast
  qed
  from ns(2,3) fields show ?thesis
    by (simp add: run IZNN_init_def)
qed

lemma without_current_append: "without_current (xs @ ys) = without_current xs @ without_current ys"
  by (simp add: without_current_def)

lemma source_value_without_current: "source_value (without_current ns) iv = source_value ns iv"
proof (rule ext)
  fix i
  have "map_of (without_current ns) i = map_option (\<lambda>n. n\<lparr>current := 0\<rparr>) (map_of ns i)"
    by (simp add: without_current_def map_of_map)
  then show "source_value (without_current ns) iv i = source_value ns iv i"
    by (cases "map_of ns i") (simp_all add: source_value_def)
qed

lemma source_value_modulo_current:
  "without_current ns1 = without_current ns2 \<Longrightarrow> source_value ns1 iv = source_value ns2 iv"
  by (metis source_value_without_current)

lemma without_current_Cons:
  assumes "without_current ((k1, n1) # r1) = without_current ((k2, n2) # r2)"
  shows "k1 = k2" and "n1\<lparr>current := x\<rparr> = n2\<lparr>current := x\<rparr>"
    and "IZNeuron.bias n1 = IZNeuron.bias n2" and "IZNeuron.inputs n1 = IZNeuron.inputs n2"
    and "without_current r1 = without_current r2"
proof -
  from assms have e: "n1\<lparr>current := 0\<rparr> = n2\<lparr>current := 0\<rparr>"
    and k: "k1 = k2" and r: "without_current r1 = without_current r2"
    by (simp_all add: without_current_def)
  show "k1 = k2" by (rule k)
  show "without_current r1 = without_current r2" by (rule r)
  from e have "(n1\<lparr>current := 0\<rparr>)\<lparr>current := x\<rparr> = (n2\<lparr>current := 0\<rparr>)\<lparr>current := x\<rparr>" by simp
  then show "n1\<lparr>current := x\<rparr> = n2\<lparr>current := x\<rparr>" by simp
  from e have "IZNeuron.bias (n1\<lparr>current := 0\<rparr>) = IZNeuron.bias (n2\<lparr>current := 0\<rparr>)" by simp
  then show "IZNeuron.bias n1 = IZNeuron.bias n2" by simp
  from e have "IZNeuron.inputs (n1\<lparr>current := 0\<rparr>) = IZNeuron.inputs (n2\<lparr>current := 0\<rparr>)" by simp
  then show "IZNeuron.inputs n1 = IZNeuron.inputs n2" by simp
qed

lemma compute_currents_modulo_current:
  assumes "without_current dn1 = without_current dn2" "without_current todo1 = without_current todo2"
  shows "fst (compute_currents dn1 todo1 iv) = fst (compute_currents dn2 todo2 iv)
         \<and> (fst (compute_currents dn1 todo1 iv) = None \<longrightarrow> dn1 = dn2 \<longrightarrow>
              snd (compute_currents dn1 todo1 iv) = snd (compute_currents dn2 todo2 iv))"
  using assms
proof (induction todo1 arbitrary: dn1 dn2 todo2)
  case Nil
  then have "todo2 = []" by (simp add: without_current_def)
  then show ?case by simp
next
  case (Cons p1 r1)
  obtain k n1 where p1: "p1 = (k, n1)" by (cases p1)
  from Cons.prems(2) obtain p2 r2 where t2: "todo2 = p2 # r2"
    by (cases todo2) (simp_all add: without_current_def)
  obtain k2 n2 where p2: "p2 = (k2, n2)" by (cases p2)
  note c = without_current_Cons [OF Cons.prems(2) [unfolded p1 t2 p2]]
  let ?m = "n1\<lparr>current := IZNeuron.bias n1\<rparr>"
  have m2: "n2\<lparr>current := IZNeuron.bias n2\<rparr> = ?m"
    using c(2) [of "IZNeuron.bias n1"] c(3) by simp
  have "without_current (dn1 @ (k, ?m) # r1) = without_current (dn2 @ (k, ?m) # r2)"
    using Cons.prems(1) c(5) by (simp add: without_current_append) (simp add: without_current_def)
  then have src: "source_value (dn1 @ (k, ?m) # r1) iv = source_value (dn2 @ (k, ?m) # r2) iv"
    by (rule source_value_modulo_current)
  let ?r = "weighted_sum (source_value (dn2 @ (k, ?m) # r2) iv) (IZNeuron.inputs n1) (IZNeuron.bias n1)"
  have a1: "add_inputs dn1 k r1 iv (IZNeuron.inputs n1) ?m = (fst ?r, ?m\<lparr>current := snd ?r\<rparr>)"
    by (simp add: add_inputs_weighted_sum src)
  have a2: "add_inputs dn2 k r2 iv (IZNeuron.inputs n2) (n2\<lparr>current := IZNeuron.bias n2\<rparr>) =
              (fst ?r, ?m\<lparr>current := snd ?r\<rparr>)"
    by (simp add: m2 c(4) [symmetric] add_inputs_weighted_sum)
  show ?case
  proof (cases "fst ?r")
    case (Some e)
    then show ?thesis by (simp add: p1 t2 p2 c(1) [symmetric] a1 a2)
  next
    case None
    have "without_current (dn1 @ [(k, ?m\<lparr>current := snd ?r\<rparr>)]) =
          without_current (dn2 @ [(k, ?m\<lparr>current := snd ?r\<rparr>)])"
      using Cons.prems(1) by (simp add: without_current_append)
    note ih = Cons.IH [OF this c(5)]
    have e1: "compute_currents dn1 (p1 # r1) iv =
                compute_currents (dn1 @ [(k, ?m\<lparr>current := snd ?r\<rparr>)]) r1 iv"
      using None by (simp add: p1 a1)
    have e2: "compute_currents dn2 todo2 iv =
                compute_currents (dn2 @ [(k, ?m\<lparr>current := snd ?r\<rparr>)]) r2 iv"
      using None by (simp add: t2 p2 c(1) [symmetric] a2)
    show ?thesis
      unfolding e1 e2 using ih by blast
  qed
qed

lemma IZNN_advance_modulo_current:
  assumes "without_current (neurons n1) = without_current (neurons n2)"
      and "outputs n1 = outputs n2" and "input_values n1 = input_values n2"
  shows "fst (IZNN_advance dt n1) = fst (IZNN_advance dt n2)"
    and "without_current (neurons (snd (IZNN_advance dt n1))) =
         without_current (neurons (snd (IZNN_advance dt n2)))"
proof -
  let ?c1 = "compute_currents [] (neurons n1) (input_values n1)"
  let ?c2 = "compute_currents [] (neurons n2) (input_values n1)"
  have w: "without_current ([] :: (int \<times> IZNeuron) list) = without_current []" by simp
  note mc = compute_currents_modulo_current [OF w assms(1), of "input_values n1"]
  have wc1: "without_current (snd ?c1) = without_current (neurons n1)"
    using compute_currents_without_current [of "[]" "neurons n1"] by simp
  have wc2: "without_current (snd ?c2) = without_current (neurons n2)"
    using compute_currents_without_current [of "[]" "neurons n2"] by simp
  have "fst (IZNN_advance dt n1) = fst (IZNN_advance dt n2)
        \<and> without_current (neurons (snd (IZNN_advance dt n1))) =
           without_current (neurons (snd (IZNN_advance dt n2)))"
  proof (cases "fst ?c1")
    case None
    with mc have "fst ?c2 = None" "snd ?c1 = snd ?c2" by simp_all
    with None show ?thesis
      by (simp add: IZNN_advance_def Let_def assms(2,3) [symmetric] split_beta split: option.splits)
  next
    case (Some e)
    with mc have "fst ?c2 = Some e" by simp
    with Some wc1 wc2 assms(1) show ?thesis
      by (simp add: IZNN_advance_def Let_def assms(2,3) [symmetric] split_beta split: option.splits)
  qed
  then show "fst (IZNN_advance dt n1) = fst (IZNN_advance dt n2)"
    and "without_current (neurons (snd (IZNN_advance dt n1))) =
         without_current (neurons (snd (IZNN_advance dt n2)))"
    by simp_all
qed

lemma compute_currents_fail_state:
  assumes "src = source_value (dn @ todo) iv"
      and "fst (compute_currents dn todo iv) = Some e"
  shows "\<exists>pre k n post. todo = pre @ (k, n) # post
           \<and> list_all (\<lambda>(k', n'). fst (weighted_sum src (IZNeuron.inputs n') (IZNeuron.bias n')) = None) pre
           \<and> fst (weighted_sum src (IZNeuron.inputs n) (IZNeuron.bias n)) = Some e
           \<and> snd (compute_currents dn todo iv) =
               dn @ map (\<lambda>(k, n). (k, n\<lparr>current := snd (weighted_sum src (IZNeuron.inputs n) (IZNeuron.bias n))\<rparr>))
                      (pre @ [(k, n)]) @ post"
  using assms
proof (induction todo arbitrary: dn)
  case Nil
  then show ?case by simp
next
  case (Cons p todo)
  obtain k0 n0 where p: "p = (k0, n0)" by (cases p)
  let ?f = "\<lambda>(k, n). (k, n\<lparr>current := snd (weighted_sum src (IZNeuron.inputs n) (IZNeuron.bias n))\<rparr>)"
  let ?n' = "n0\<lparr>current := snd (weighted_sum src (IZNeuron.inputs n0) (IZNeuron.bias n0))\<rparr>"
  have src: "source_value (dn @ (k0, n0\<lparr>current := IZNeuron.bias n0\<rparr>) # todo) iv = src"
    using Cons.prems(1) by (simp add: p source_value_current)
  show ?case
  proof (cases "fst (weighted_sum src (IZNeuron.inputs n0) (IZNeuron.bias n0))")
    case (Some e')
    with Cons.prems(2) have e: "e' = e"
      by (simp add: p add_inputs_weighted_sum src)
    have "snd (compute_currents dn (p # todo) iv) = dn @ map ?f ([] @ [(k0, n0)]) @ todo"
      using Some by (simp add: p add_inputs_weighted_sum src)
    with Some e show ?thesis
      by (rule_tac x = "[]" in exI, rule_tac x = k0 in exI, rule_tac x = n0 in exI,
          rule_tac x = todo in exI) (simp add: p)
  next
    case None
    have src': "src = source_value ((dn @ [(k0, ?n')]) @ todo) iv"
      using Cons.prems(1) by (simp add: p source_value_current)
    have step: "compute_currents dn (p # todo) iv = compute_currents (dn @ [(k0, ?n')]) todo iv"
      using None by (simp add: p add_inputs_weighted_sum src)
    with Cons.prems(2) have "fst (compute_currents (dn @ [(k0, ?n')]) todo iv) = Some e" by simp
    from Cons.IH [OF src' this] obtain pre k n post where ih:
      "todo = pre @ (k, n) # post"
      "list_all (\<lambda>(k', n'). fst (weighted_sum src (IZNeuron.inputs n') (IZNeuron.bias n')) = None) pre"
      "fst (weighted_sum src (IZNeuron.inputs n) (IZNeuron.bias n)) = Some e"
      "snd (compute_currents (dn @ [(k0, ?n')]) todo iv) = (dn @ [(k0, ?n')]) @ map ?f (pre @ [(k, n)]) @ post"
      by blast
    have a: "p # todo = ((k0, n0) # pre) @ (k, n) # post"
      by (simp add: p ih(1))
    have b: "list_all (\<lambda>(k', n'). fst (weighted_sum src (IZNeuron.inputs n') (IZNeuron.bias n')) = None)
               ((k0, n0) # pre)"
      using None ih(2) by simp
    have c: "snd (compute_currents dn (p # todo) iv) = dn @ map ?f (((k0, n0) # pre) @ [(k, n)]) @ post"
      using ih(4) by (simp add: step)
    from a b ih(3) c show ?thesis by blast
  qed
qed

text \<open>
  Claim C5, amended. When some source of some neuron is neither the key of a neuron
  nor a key of \<^verbatim>\<open>input_values\<close>, \<^verbatim>\<open>IZNN.advance\<close> raises \<^verbatim>\<open>KeyError\<close> with
  such a key, one that a neuron's input list names. Nothing defaults to zero. The
  network it leaves is the old one but for \<open>current\<close> fields: every neuron stored
  before the failing one has its \<open>current\<close> set to its bias plus all its weighted
  sources, the failing neuron has it set to its bias plus the contributions of the
  inputs before the missing key, and the neurons stored after it are untouched. The
  key sequences, \<^verbatim>\<open>input_values\<close> and every other field of every neuron are
  unchanged. A later \<^verbatim>\<open>advance\<close> on it, whatever step and input values are
  used, returns or raises what it would on the network before the failed call, and
  leaves the same neurons up to \<open>current\<close>.
\<close>

theorem advance_missing_binding:
  assumes "\<not> sources_bound net"
  shows "\<exists>i net'. IZNN_advance dt net = (Inl (KeyError i), net')
           \<and> map_of (neurons net) i = None \<and> input_values net i = None
           \<and> (\<exists>(k, n) \<in> set (neurons net). i \<in> fst ` set (IZNeuron.inputs n))
           \<and> (\<exists>pre k n post.
                 neurons net = pre @ (k, n) # post
                 \<and> list_all (\<lambda>(k', n'). fst (weighted_sum (source_value (neurons net) (input_values net))
                                              (IZNeuron.inputs n') (IZNeuron.bias n')) = None) pre
                 \<and> fst (weighted_sum (source_value (neurons net) (input_values net))
                          (IZNeuron.inputs n) (IZNeuron.bias n)) = Some (KeyError i)
                 \<and> neurons net' =
                     map (\<lambda>(k, n). (k, n\<lparr>current := frozen_current net n\<rparr>)) (pre @ [(k, n)]) @ post)
           \<and> without_current (neurons net') = without_current (neurons net)
           \<and> IZNN.inputs net' = IZNN.inputs net \<and> outputs net' = outputs net
           \<and> input_values net' = input_values net
           \<and> (\<forall>dt2 iv2. fst (IZNN_advance dt2 (net'\<lparr>input_values := iv2\<rparr>)) =
                      fst (IZNN_advance dt2 (net\<lparr>input_values := iv2\<rparr>))
                  \<and> without_current (neurons (snd (IZNN_advance dt2 (net'\<lparr>input_values := iv2\<rparr>)))) =
                    without_current (neurons (snd (IZNN_advance dt2 (net\<lparr>input_values := iv2\<rparr>)))))"
proof -
  let ?src = "source_value (neurons net) (input_values net)"
  from not_bound_fails [OF assms] obtain i where
    i: "fst (compute_currents [] (neurons net) (input_values net)) = Some (KeyError i)"
       "source_value (neurons net) (input_values net) i = None"
       "\<exists>(k, n) \<in> set (neurons net). i \<in> fst ` set (IZNeuron.inputs n)"
    by blast
  obtain ns where ns: "compute_currents [] (neurons net) (input_values net) = (Some (KeyError i), ns)"
    using i(1) by (cases "compute_currents [] (neurons net) (input_values net)") simp
  have src: "?src = source_value ([] @ neurons net) (input_values net)" by simp
  from compute_currents_fail_state [OF src i(1)] obtain pre k n post where st:
    "neurons net = pre @ (k, n) # post"
    "list_all (\<lambda>(k', n'). fst (weighted_sum ?src (IZNeuron.inputs n') (IZNeuron.bias n')) = None) pre"
    "fst (weighted_sum ?src (IZNeuron.inputs n) (IZNeuron.bias n)) = Some (KeyError i)"
    "snd (compute_currents [] (neurons net) (input_values net)) =
       [] @ map (\<lambda>(k, n). (k, n\<lparr>current := snd (weighted_sum ?src (IZNeuron.inputs n) (IZNeuron.bias n))\<rparr>))
              (pre @ [(k, n)]) @ post"
    by blast
  from st(4) have nsq: "ns = map (\<lambda>(k, n). (k, n\<lparr>current := frozen_current net n\<rparr>)) (pre @ [(k, n)]) @ post"
    by (simp add: ns frozen_current_def)
  have exact: "\<exists>pre k n post.
                 neurons net = pre @ (k, n) # post
                 \<and> list_all (\<lambda>(k', n'). fst (weighted_sum ?src (IZNeuron.inputs n') (IZNeuron.bias n')) = None) pre
                 \<and> fst (weighted_sum ?src (IZNeuron.inputs n) (IZNeuron.bias n)) = Some (KeyError i)
                 \<and> ns = map (\<lambda>(k, n). (k, n\<lparr>current := frozen_current net n\<rparr>)) (pre @ [(k, n)]) @ post"
    using st(1-3) nsq by blast
  have wc: "without_current ns = without_current (neurons net)"
    using compute_currents_without_current [of "[]" "neurons net" "input_values net"] by (simp add: ns)
  have run: "IZNN_advance dt net = (Inl (KeyError i), net\<lparr>neurons := ns\<rparr>)"
    by (simp add: IZNN_advance_def ns)
  have none: "map_of (neurons net) i = None \<and> input_values net i = None"
    using i(2) by (simp add: source_value_def split: option.splits)
  have retry: "fst (IZNN_advance dt2 (net\<lparr>neurons := ns, input_values := iv2\<rparr>)) =
                 fst (IZNN_advance dt2 (net\<lparr>input_values := iv2\<rparr>))
               \<and> without_current (neurons (snd (IZNN_advance dt2 (net\<lparr>neurons := ns, input_values := iv2\<rparr>)))) =
                 without_current (neurons (snd (IZNN_advance dt2 (net\<lparr>input_values := iv2\<rparr>))))" for dt2 iv2
    using IZNN_advance_modulo_current [of "net\<lparr>neurons := ns, input_values := iv2\<rparr>" "net\<lparr>input_values := iv2\<rparr>" dt2]
    by (simp add: wc)
  show ?thesis
    using none i(3) exact wc retry by (intro exI [of _ i] exI [of _ "net\<lparr>neurons := ns\<rparr>"]) (simp add: run)
qed

section \<open>The properties on the examples\<close>

text \<open>
  Scenario A of the specification: one regular-spiking neuron without input, stepped
  by 0.05 from its initial state.
\<close>

theorem advance_no_overflow_witness:
  "\<not> fst (try_body 0.05 (IZNeuron_init 0 0.02 0.2 (-65) 8 []))
   \<and> IZNeuron_advance 0.05 (IZNeuron_init 0 0.02 0.2 (-65) 8 [])
       = (IZNeuron_init 0 0.02 0.2 (-65) 8 [])\<lparr>v := -65.149619375, u := -13.000029923875, fired := 0\<rparr>"
proof -
  have h: "\<not> fst (try_body 0.05 (IZNeuron_init 0 0.02 0.2 (-65) 8 []))"
    by (simp add: try_body_def half_step_def float_pow2_def float_max_def IZNeuron_init_def)
  show ?thesis
    using h advance_no_overflow [OF h]
    by (simp add: IZNeuron_init_def euler_half_def Let_def power2_eq_square)
qed

text \<open>The definitions that evaluate one step of a neuron on numerals.\<close>

lemmas neuron_eval = IZNeuron_advance_def try_body_def half_step_def float_pow2_def float_max_def
  spike_check_def on_overflow_def Let_def IZNeuron_init_def regular_spiking_def power2_eq_square

text \<open>
  The two-phase step on the pair network: neuron 0 receives 10 from the input key and
  10000 from the spike neuron 1 emitted in the step before, and fires; neuron 1 sees
  the old \<open>fired = 0\<close> of neuron 0 and stays silent. The result follows the output
  keys 1, 0, in either storage order.
\<close>

theorem advance_two_phase_witness:
  "sources_bound pair_net
   \<and> set (outputs pair_net) \<subseteq> fst ` set (neurons pair_net)
   \<and> fst (IZNN_advance 0.05 pair_net) = Inr [0, 1]
   \<and> fst (IZNN_advance 0.05 pair_net_swapped) = Inr [0, 1]"
proof -
  have h1: "sources_bound pair_net"
    by (simp add: sources_bound_def pair_net_def source_value_def regular_spiking_def IZNeuron_init_def)
  have h2: "set (outputs pair_net) \<subseteq> fst ` set (neurons pair_net)"
    by (simp add: pair_net_def)
  from advance_two_phase [OF h1 h2, of "0.05"] obtain res where
    r: "IZNN_advance 0.05 pair_net = (Inr res, pair_net\<lparr>neurons := stepped 0.05 pair_net\<rparr>)"
       "map Some res = map (\<lambda>k. map_option fired (map_of (stepped 0.05 pair_net) k)) (outputs pair_net)"
       "\<forall>net2. distinct (map fst (neurons pair_net)) \<and> distinct (map fst (neurons net2))
                 \<and> set (neurons net2) = set (neurons pair_net) \<and> outputs net2 = outputs pair_net
                 \<and> input_values net2 = input_values pair_net
                 \<longrightarrow> fst (IZNN_advance 0.05 net2) = Inr res
                     \<and> set (neurons (snd (IZNN_advance 0.05 net2))) = set (stepped 0.05 pair_net)"
    by blast
  have "map (\<lambda>k. map_option fired (map_of (stepped 0.05 pair_net) k)) (outputs pair_net) = map Some [0, 1]"
    by (simp add: stepped_def pair_net_def frozen_current_def source_value_def neuron_eval)
  with r(2) have "map Some res = map Some [0, 1]" by simp
  then have res: "res = [0, 1]" by (rule map_injective) simp
  have "distinct (map fst (neurons pair_net)) \<and> distinct (map fst (neurons pair_net_swapped))
        \<and> set (neurons pair_net_swapped) = set (neurons pair_net)
        \<and> outputs pair_net_swapped = outputs pair_net
        \<and> input_values pair_net_swapped = input_values pair_net"
    by (auto simp add: pair_net_def pair_net_swapped_def)
  with r(3) have "fst (IZNN_advance 0.05 pair_net_swapped) = Inr res" by blast
  with h1 h2 r(1) res show ?thesis by simp
qed

text \<open>
  Claim C5 as stated fails on the network with an unbound input key: the call raises
  \<^verbatim>\<open>KeyError(-2)\<close> after the value of key \<open>-1\<close> has been added to the current
  of neuron 0, so the network is neither as it was nor as \<^verbatim>\<open>reset\<close> would leave it.
\<close>

theorem advance_missing_binding_counterexample:
  "fst (IZNN_advance 0.05 unbound_net) = Inl (KeyError (-2))
   \<and> snd (IZNN_advance 0.05 unbound_net) \<noteq> unbound_net
   \<and> snd (IZNN_advance 0.05 unbound_net) \<noteq> IZNN_reset unbound_net"
  by (simp add: IZNN_advance_def unbound_net_def IZNN_reset_def IZNeuron_reset_def
        regular_spiking_def IZNeuron_init_def Let_def)

text \<open>
  The amended claim on the chain of three neurons: neuron 0 gets its full current 5,
  neuron 1 keeps the 10 added before key \<open>-2\<close> was missed, neuron 2 keeps its 99;
  the retry is made after both keys have values.
\<close>

theorem advance_missing_binding_witness:
  "\<not> sources_bound unbound_chain
   \<and> fst (IZNN_advance 0.05 unbound_chain) = Inl (KeyError (-2))
   \<and> neurons (snd (IZNN_advance 0.05 unbound_chain)) =
       [(0, (regular_spiking 0 [(-1, 1)])\<lparr>current := 5\<rparr>),
        (1, (regular_spiking 0 [(-1, 2), (-2, 1)])\<lparr>current := 10\<rparr>),
        (2, (regular_spiking 3 [])\<lparr>current := 99\<rparr>)]
   \<and> without_current (neurons (snd (IZNN_advance 0.05 unbound_chain))) = without_current (neurons unbound_chain)
   \<and> fst (IZNN_advance 0.05 ((snd (IZNN_advance 0.05 unbound_chain))\<lparr>input_values := [-1 \<mapsto> 5, -2 \<mapsto> 7]\<rparr>))
       = fst (IZNN_advance 0.05 (unbound_chain\<lparr>input_values := [-1 \<mapsto> 5, -2 \<mapsto> 7]\<rparr>))"
proof -
  let ?A = "regular_spiking 0 [(-1, 1)]"
  let ?B = "regular_spiking 0 [(-1, 2), (-2, 1)]"
  let ?C = "(regular_spiking 3 [])\<lparr>current := 99\<rparr>"
  let ?src = "source_value (neurons unbound_chain) (input_values unbound_chain)"
  have h: "\<not> sources_bound unbound_chain"
    by (simp add: sources_bound_def unbound_chain_def source_value_def regular_spiking_def IZNeuron_init_def)
  have e: "fst (IZNN_advance 0.05 unbound_chain) = Inl (KeyError (-2))"
    by (simp add: IZNN_advance_def unbound_chain_def regular_spiking_def IZNeuron_init_def)
  have ns: "neurons unbound_chain = [(0, ?A), (1, ?B), (2, ?C)]"
    by (simp add: unbound_chain_def)
  have ws: "fst (weighted_sum ?src (IZNeuron.inputs ?A) (IZNeuron.bias ?A)) = None"
           "fst (weighted_sum ?src (IZNeuron.inputs ?B) (IZNeuron.bias ?B)) \<noteq> None"
    by (simp_all add: unbound_chain_def source_value_def regular_spiking_def IZNeuron_init_def)
  have fc: "frozen_current unbound_chain ?A = 5" "frozen_current unbound_chain ?B = 10"
    by (simp_all add: frozen_current_def unbound_chain_def source_value_def regular_spiking_def IZNeuron_init_def)
  from advance_missing_binding [OF h, of "0.05"] obtain i net' pre k n post where t:
    "IZNN_advance 0.05 unbound_chain = (Inl (KeyError i), net')"
    "neurons unbound_chain = pre @ (k, n) # post"
    "list_all (\<lambda>(k', n'). fst (weighted_sum ?src (IZNeuron.inputs n') (IZNeuron.bias n')) = None) pre"
    "fst (weighted_sum ?src (IZNeuron.inputs n) (IZNeuron.bias n)) = Some (KeyError i)"
    "neurons net' = map (\<lambda>(k, n). (k, n\<lparr>current := frozen_current unbound_chain n\<rparr>)) (pre @ [(k, n)]) @ post"
    "without_current (neurons net') = without_current (neurons unbound_chain)"
    "\<forall>dt2 iv2. fst (IZNN_advance dt2 (net'\<lparr>input_values := iv2\<rparr>)) =
                      fst (IZNN_advance dt2 (unbound_chain\<lparr>input_values := iv2\<rparr>))
                  \<and> without_current (neurons (snd (IZNN_advance dt2 (net'\<lparr>input_values := iv2\<rparr>)))) =
                    without_current (neurons (snd (IZNN_advance dt2 (unbound_chain\<lparr>input_values := iv2\<rparr>))))"
    by blast
  from t(2,3,4) ws have split: "pre = [(0, ?A)] \<and> (k, n) = (1, ?B) \<and> post = [(2, ?C)]"
    unfolding ns by (auto simp add: Cons_eq_append_conv)
  from t(1) have net': "net' = snd (IZNN_advance 0.05 unbound_chain)" by simp
  from t(5) split fc have "neurons net' = [(0, ?A\<lparr>current := 5\<rparr>), (1, ?B\<lparr>current := 10\<rparr>), (2, ?C)]"
    by simp
  with h e t(6) t(7) show ?thesis
    unfolding net' by simp
qed

text \<open>
  Key 1 is a neuron and is also given the input value 77: the value is not used, and
  the current of neuron 0 after the step is \<open>0 + 1 * 10 + 10000 * 1\<close>.
\<close>

theorem neuron_precedes_input_value_witness:
  "map_of ([] @ (0 :: int, regular_spiking 0 [(1, 3)]) # [(1, (regular_spiking 0 [])\<lparr>fired := 1\<rparr>)]) 1
     = Some ((regular_spiking 0 [])\<lparr>fired := 1\<rparr>)
   \<and> add_inputs [] 0 [(1, (regular_spiking 0 [])\<lparr>fired := 1\<rparr>)] [1 \<mapsto> 77] [(1, 3)] (regular_spiking 0 [(1, 3)])
     = (None, (regular_spiking 0 [(1, 3)])\<lparr>current := 3\<rparr>)
   \<and> IZNN_advance 0.05 (pair_net\<lparr>input_values := [-1 \<mapsto> 10, 1 \<mapsto> 77]\<rparr>)
     = (fst (IZNN_advance 0.05 pair_net),
        (snd (IZNN_advance 0.05 pair_net))\<lparr>input_values := [-1 \<mapsto> 10, 1 \<mapsto> 77]\<rparr>)
   \<and> sources_bound (pair_net\<lparr>input_values := [-1 \<mapsto> 10, 1 \<mapsto> 77]\<rparr>)
   \<and> map (\<lambda>(k, n). current n)
        (neurons (snd (IZNN_advance 0.05 (pair_net\<lparr>input_values := [-1 \<mapsto> 10, 1 \<mapsto> 77]\<rparr>)))) = [10010, 0]"
proof -
  let ?net = "pair_net\<lparr>input_values := [-1 \<mapsto> 10, 1 \<mapsto> 77]\<rparr>"
  have h1: "map_of ([] @ (0 :: int, regular_spiking 0 [(1, 3)]) # [(1, (regular_spiking 0 [])\<lparr>fired := 1\<rparr>)]) 1
     = Some ((regular_spiking 0 [])\<lparr>fired := 1\<rparr>)"
    by simp
  have h2: "\<forall>i. i \<notin> fst ` set (neurons pair_net) \<longrightarrow> [-1 \<mapsto> 10, 1 \<mapsto> 77] i = input_values pair_net i"
    by (simp add: pair_net_def)
  have c: "current (regular_spiking 0 [(1, 3)]) = 0" "fired ((regular_spiking 0 [])\<lparr>fired := 1\<rparr>) = 1"
    by (simp_all add: regular_spiking_def IZNeuron_init_def)
  have h3: "sources_bound ?net"
    by (simp add: sources_bound_def pair_net_def source_value_def regular_spiking_def IZNeuron_init_def)
  from neuron_precedes_input_value [of "[]" 0 "regular_spiking 0 [(1, 3)]"
      "[(1, (regular_spiking 0 [])\<lparr>fired := 1\<rparr>)]" 1 "(regular_spiking 0 [])\<lparr>fired := 1\<rparr>"
      "[1 \<mapsto> 77]" 3 "[]" pair_net "[-1 \<mapsto> 10, 1 \<mapsto> 77]" "0.05"] h1 h2 c
  have a: "add_inputs [] 0 [(1, (regular_spiking 0 [])\<lparr>fired := 1\<rparr>)] [1 \<mapsto> 77] [(1, 3)] (regular_spiking 0 [(1, 3)])
     = (None, (regular_spiking 0 [(1, 3)])\<lparr>current := 3\<rparr>)
   \<and> IZNN_advance 0.05 ?net
     = (fst (IZNN_advance 0.05 pair_net), (snd (IZNN_advance 0.05 pair_net))\<lparr>input_values := [-1 \<mapsto> 10, 1 \<mapsto> 77]\<rparr>)"
    by simp
  from neuron_precedes_input_value [of _ _ _ _ _ _ _ _ _ ?net _ "0.05"] h3
  have "map (\<lambda>(k, n). current n) (neurons (snd (IZNN_advance 0.05 ?net))) =
          map (\<lambda>(k, n). snd (weighted_sum
                      (\<lambda>j. case map_of (neurons ?net) j of Some s \<Rightarrow> Some (fired s) | None \<Rightarrow> input_values ?net j)
                      (IZNeuron.inputs n) (IZNeuron.bias n))) (neurons ?net)"
    by blast
  also have "\<dots> = [10010, 0]"
    by (simp add: pair_net_def regular_spiking_def IZNeuron_init_def)
  finally have b: "map (\<lambda>(k, n). current n) (neurons (snd (IZNN_advance 0.05 ?net))) = [10010, 0]" .
  from h1 a h3 b show ?thesis by simp
qed

text \<open>
  After a step of the pair network every \<open>fired\<close> is 0 or 1.
\<close>

theorem fired_is_binary_witness:
  "fst (IZNN_advance 0.05 pair_net) = Inr [0, 1]
   \<and> fired ` snd ` set (neurons (snd (IZNN_advance 0.05 pair_net))) \<subseteq> {0, 1}"
proof -
  have e: "fst (IZNN_advance 0.05 pair_net) = Inr [0, 1]"
    by (simp add: IZNN_advance_def pair_net_def neuron_eval)
  then have "IZNN_advance 0.05 pair_net = (Inr [0, 1], snd (IZNN_advance 0.05 pair_net))"
    by (simp add: prod_eq_iff)
  with fired_is_binary [of 0 0 0 0 0 "[]" "0.05" "regular_spiking 0 []" pair_net]
  have "\<forall>(k, m) \<in> set (neurons (snd (IZNN_advance 0.05 pair_net))). fired m \<in> {0, 1}"
    by blast
  then have "fired ` snd ` set (neurons (snd (IZNN_advance 0.05 pair_net))) \<subseteq> {0, 1}"
    by auto
  with e show ?thesis by simp
qed

text \<open>
  One value for two input keys is refused; two values are stored under the two keys.
\<close>

theorem set_inputs_checked_witness:
  "length [1 :: real] \<noteq> length (IZNN.inputs unbound_net)
   \<and> IZNN_set_inputs [1] unbound_net = (Some AssertionError, unbound_net)
   \<and> length [3 :: real, 4] = length (IZNN.inputs unbound_net)
   \<and> input_values (snd (IZNN_set_inputs [3, 4] unbound_net)) (-1) = Some 3
   \<and> input_values (snd (IZNN_set_inputs [3, 4] unbound_net)) (-2) = Some 4"
proof -
  have h1: "length [1 :: real] \<noteq> length (IZNN.inputs unbound_net)"
    by (simp add: unbound_net_def)
  have h2: "length [3 :: real, 4] = length (IZNN.inputs unbound_net)"
    by (simp add: unbound_net_def)
  from set_inputs_checked [of "[1]" unbound_net] h1
  have a: "IZNN_set_inputs [1] unbound_net = (Some AssertionError, unbound_net)" by blast
  from set_inputs_checked [of "[3, 4]" unbound_net] h2
  have "IZNN_set_inputs [3, 4] unbound_net =
          (None, unbound_net\<lparr>input_values := (input_values unbound_net)(IZNN.inputs unbound_net [\<mapsto>] [3, 4])\<rparr>)"
    by blast
  then have b: "input_values (snd (IZNN_set_inputs [3, 4] unbound_net)) (-1) = Some 3"
       "input_values (snd (IZNN_set_inputs [3, 4] unbound_net)) (-2) = Some 4"
    by (simp_all add: unbound_net_def)
  from h1 h2 a b show ?thesis by simp
qed

text \<open>
  Scenario B: the network has the single neuron 0, whose input list is \<open>[(-1, 1)]\<close>.
\<close>

theorem create_builds_required_witness:
  "required_for_output [-1, -2] [0] (connections scenario_b_genome) = [0]
   \<and> nodes scenario_b_genome 0 \<noteq> None
   \<and> IZNN_create required_for_output scenario_b_genome scenario_b_config =
       Inr \<lparr>neurons = [(0, \<lparr>IZNeuron.a = 0.02, b = 0.2, c = -65, d = 8, bias = 0,
                              inputs = [(-1, 1)], v = -65, u = -13, fired = 0, current = 0\<rparr>)],
            inputs = [-1, -2], outputs = [0], input_values = Map.empty\<rparr>"
proof -
  have r: "required_for_output [-1, -2] [0] (connections scenario_b_genome) = [0]"
    by (simp add: required_for_output_def required_step_def scenario_b_genome_def)
  have n: "nodes scenario_b_genome 0 \<noteq> None"
    by (simp add: scenario_b_genome_def)
  have k: "input_keys (genome_config scenario_b_config) = [-1, -2]"
          "output_keys (genome_config scenario_b_config) = [0]"
    by (simp_all add: scenario_b_config_def)
  have i: "inputs_of [0] (map snd (connections scenario_b_genome)) 0 = [(-1, 1)]"
    by (simp add: inputs_of_def scenario_b_genome_def)
  have g: "nodes scenario_b_genome 0 = Some \<lparr>IZNodeGene.bias = 0, a = 0.02, b = 0.20, c = -65, d = 8\<rparr>"
    by (simp add: scenario_b_genome_def)
  from create_builds_required [of required_for_output scenario_b_config scenario_b_genome] r n k
  obtain net m where net: "IZNN_create required_for_output scenario_b_genome scenario_b_config = Inr net"
    "distinct (map fst (neurons net))" "fst ` set (neurons net) = {0}"
    "map_of (neurons net) 0 = Some m"
    "IZNeuron.inputs m = [(-1, 1)]" "IZNeuron.bias m = 0" "IZNeuron.a m = 0.02" "IZNeuron.b m = 0.2"
    "IZNeuron.c m = -65" "IZNeuron.d m = 8" "v m = -65" "u m = 0.2 * (-65)" "fired m = 0" "current m = 0"
    "IZNN.inputs net = [-1, -2]" "outputs net = [0]" "input_values net = Map.empty"
    by (auto simp add: i g)
  from net(5-14) have m: "m = \<lparr>IZNeuron.a = 0.02, b = 0.2, c = -65, d = 8, bias = 0,
                              inputs = [(-1, 1)], v = -65, u = -13, fired = 0, current = 0\<rparr>"
    by (cases m) simp
  from net(3) obtain p ps where ps: "neurons net = p # ps"
    by (cases "neurons net") auto
  have "ps = []"
  proof (cases ps)
    case Nil
    then show ?thesis .
  next
    case (Cons q qs)
    with net(3) ps have "fst p = 0" "fst q = 0" by auto
    moreover from net(2) ps Cons have "fst q \<noteq> fst p" by auto
    ultimately show ?thesis by simp
  qed
  with net(3) ps obtain x where x: "neurons net = [(0, x)]"
    by (cases p) auto
  with net(4) m have "neurons net = [(0, \<lparr>IZNeuron.a = 0.02, b = 0.2, c = -65, d = 8, bias = 0,
                              inputs = [(-1, 1)], v = -65, u = -13, fired = 0, current = 0\<rparr>)]" by simp
  with net(15-17) have "net = \<lparr>neurons = [(0, \<lparr>IZNeuron.a = 0.02, b = 0.2, c = -65, d = 8, bias = 0,
                              inputs = [(-1, 1)], v = -65, u = -13, fired = 0, current = 0\<rparr>)],
            inputs = [-1, -2], outputs = [0], input_values = Map.empty\<rparr>"
    by (cases net) simp
  with net(1) r n show ?thesis by simp
qed

end
